theory Spec2Isabelle
  imports Main "HOL-Library.Sublist" "HOL-Library.Multiset"
begin

section \<open>Strings of the host language\<close>

text \<open>
  The program is JavaScript (\<^verbatim>\<open>src/cli/actions/gen.js\<close>). Its strings are modelled as
  \<^typ>\<open>string\<close>, one \<^typ>\<open>char\<close> per code unit, so the model covers the strings whose
  code units are below 256. White space is what \<^verbatim>\<open>\s\<close> and \<^verbatim>\<open>String.prototype.trim\<close>
  take for white space in that range: tab, line feed, vertical tab, form feed, carriage
  return, space and the no-break space. A line terminator is what \<^verbatim>\<open>.\<close> of a regular
  expression refuses to match.
\<close>

definition is_space :: "char \<Rightarrow> bool" where
  "is_space c = (c \<in> set [CHR 0x09, CHR 0x0A, CHR 0x0B, CHR 0x0C, CHR 0x0D, CHR 0x20, CHR 0xA0])"

definition is_line_terminator :: "char \<Rightarrow> bool" where
  "is_line_terminator c = (c = CHR 0x0A \<or> c = CHR 0x0D)"

definition trim :: "string \<Rightarrow> string" where
  "trim s = rev (dropWhile is_space (rev (dropWhile is_space s)))"

text \<open>What \<^const>\<open>trim\<close> removes at the end.\<close>

definition trim_tail :: "string \<Rightarrow> string" where
  "trim_tail s = rev (takeWhile is_space (rev (dropWhile is_space s)))"

text \<open>\<^verbatim>\<open>s.split(d)\<close> for a one-character separator: \<^verbatim>\<open>''.split('/')\<close> is \<^verbatim>\<open>['']\<close>.\<close>

fun split :: "char \<Rightarrow> string \<Rightarrow> string list" where
  "split d [] = [[]]"
| "split d (c # cs) =
     (if c = d then [] # split d cs
      else (case split d cs of [] \<Rightarrow> [[c]] | w # ws \<Rightarrow> (c # w) # ws))"

section \<open>The collaborators\<close>

text \<open>
  The libraries the program calls are not part of it: Node's \<^verbatim>\<open>URL\<close>, picomatch, undici,
  cheerio, turndown, sitemapper, the regular expression engine and the case mappings of
  strings. Each is a field of the environment; a call that can throw returns an option,
  \<^const>\<open>None\<close> when it throws.
  \<^item> \<open>URL_pathname uri\<close> is \<^verbatim>\<open>new URL(uri).pathname\<close>;
  \<^item> \<open>glob_match g s\<close> is \<^verbatim>\<open>picomatch(g)(s)\<close> for one glob \<open>g\<close>;
  \<^item> \<open>request_text url\<close> is \<^verbatim>\<open>request(url, { maxRedirections: 10 })\<close> followed by
    \<^verbatim>\<open>body.text()\<close>;
  \<^item> \<open>cheerio_load html\<close> is \<^verbatim>\<open>cheerio.load(html)\<close>, and \<open>sel_text\<close>, \<open>sel_content\<close>,
    \<open>sel_html\<close> are \<^verbatim>\<open>$(sel).text()\<close>, \<^verbatim>\<open>$(sel).attr('content')\<close> (\<^const>\<open>None\<close> for
    \<^verbatim>\<open>undefined\<close>) and \<^verbatim>\<open>$(sel).html()\<close> (\<^const>\<open>None\<close> for \<^verbatim>\<open>null\<close>);
  \<^item> \<open>new_RegExp p f\<close> is \<^verbatim>\<open>new RegExp(p, f)\<close> and \<open>str_replace t r s\<close> is
    \<^verbatim>\<open>t.replace(r, s)\<close>;
  \<^item> \<open>turndown html\<close> is \<^verbatim>\<open>turndownService.turndown(html)\<close>;
  \<^item> \<open>sitemap_sites url\<close> is \<^verbatim>\<open>(await sitemap.fetch(url)).sites\<close>.
\<close>

datatype selector =
    HeadTitle  \<comment> \<open>\<^verbatim>\<open>head > title\<close>\<close>
  | MetaDescription  \<comment> \<open>\<^verbatim>\<open>head > meta[name="description"]\<close>\<close>
  | MetaOgDescription  \<comment> \<open>\<^verbatim>\<open>head > meta[property="og:description"]\<close>\<close>
  | MetaTwitterDescription  \<comment> \<open>\<^verbatim>\<open>head > meta[name="twitter:description"]\<close>\<close>
  | MainElement  \<comment> \<open>\<^verbatim>\<open>main\<close>\<close>
  | RoleMain  \<comment> \<open>\<^verbatim>\<open>[role=main]\<close>\<close>
  | ContentContainers  \<comment> \<open>\<^verbatim>\<open>.content, #content, .post, .docs, .article\<close>, first match\<close>
  | ArticleElement  \<comment> \<open>\<^verbatim>\<open>article\<close>\<close>
  | BodyElement  \<comment> \<open>\<^verbatim>\<open>body\<close>\<close>

record ('dom, 'rx) env =
  URL_pathname :: "string \<Rightarrow> string option"
  glob_match :: "string \<Rightarrow> string \<Rightarrow> bool"
  request_text :: "string \<Rightarrow> string option"
  cheerio_load :: "string \<Rightarrow> 'dom option"
  sel_text :: "'dom \<Rightarrow> selector \<Rightarrow> string"
  sel_content :: "'dom \<Rightarrow> selector \<Rightarrow> string option"
  sel_html :: "'dom \<Rightarrow> selector \<Rightarrow> string option"
  new_RegExp :: "string \<Rightarrow> string \<Rightarrow> 'rx option"
  str_replace :: "string \<Rightarrow> 'rx \<Rightarrow> string \<Rightarrow> string"
  turndown :: "string \<Rightarrow> string option"
  toUpperCase :: "string \<Rightarrow> string"
  toLowerCase :: "string \<Rightarrow> string"
  sitemap_sites :: "string \<Rightarrow> string list option"

section \<open>Sections and titles\<close>

text \<open>
  \<^verbatim>\<open>parseSection\<close>: the path of the URL is split at \<^verbatim>\<open>/\<close>, the empty pieces are dropped
  (\<^verbatim>\<open>filter(Boolean)\<close>), and the first piece left is the section; \<^verbatim>\<open>segments[0]\<close> of an
  empty array is \<^verbatim>\<open>undefined\<close>, which \<^verbatim>\<open>||\<close> replaces by \<^verbatim>\<open>'ROOT'\<close>. The \<^verbatim>\<open>catch\<close>
  returns \<^verbatim>\<open>'ROOT'\<close> when the constructor throws.
\<close>

definition parseSection :: "('dom, 'rx) env \<Rightarrow> string \<Rightarrow> string" where
  "parseSection E uri =
     (case URL_pathname E uri of
        None \<Rightarrow> ''ROOT''
      | Some pathname \<Rightarrow>
          (case filter (\<lambda>s. s \<noteq> []) (split CHR ''/'' pathname) of
             [] \<Rightarrow> ''ROOT''
           | seg # _ \<Rightarrow> seg))"

text \<open>
  \<^verbatim>\<open>cleanTitle\<close>: \<^verbatim>\<open>title.replace(/^\|\s*/, '')\<close> removes a bar at position 0 and the
  white space after it (the quantifier is greedy and nothing follows it), then the
  result is trimmed. An empty title is falsy and gives the empty string.
\<close>

definition strip_bar :: "string \<Rightarrow> string" where
  "strip_bar title =
     (case title of
        [] \<Rightarrow> []
      | c # cs \<Rightarrow> if c = CHR ''|'' then dropWhile is_space cs else title)"

definition cleanTitle :: "string \<Rightarrow> string" where
  "cleanTitle title = (if title = [] then [] else trim (strip_bar title))"

text \<open>
  \<^verbatim>\<open>parseSubstitutionCommand\<close> matches \<^verbatim>\<open>/^s\/(.*?)\/(.*?)\/([gimsuy]*)$/\<close>. Both groups
  are lazy: the engine tries the slashes from left to right and takes the first one after
  which the rest of the expression matches, and \<^verbatim>\<open>.\<close> stops at a line terminator.
  \<open>lazy_to_slash k acc s\<close> is that search, \<open>k\<close> being the match of the rest of the
  expression and \<open>acc\<close> the characters the group has consumed, latest first.
\<close>

datatype error =
    InvalidSubstitutionCommand  \<comment> \<open>\<^verbatim>\<open>Error('Invalid substitution command format')\<close>\<close>
  | RegExpSyntaxError  \<comment> \<open>thrown by \<^verbatim>\<open>new RegExp\<close>\<close>
  | CheerioError  \<comment> \<open>thrown by \<^verbatim>\<open>cheerio.load\<close>\<close>
  | TurndownError  \<comment> \<open>thrown by \<^verbatim>\<open>turndown\<close>\<close>

fun lazy_to_slash :: "(string \<Rightarrow> 'a option) \<Rightarrow> string \<Rightarrow> string \<Rightarrow> (string \<times> 'a) option" where
  "lazy_to_slash k acc [] = None"
| "lazy_to_slash k acc (c # cs) =
     (if c = CHR ''/'' then
        (case k cs of
           Some r \<Rightarrow> Some (rev acc, r)
         | None \<Rightarrow> lazy_to_slash k (c # acc) cs)
      else if is_line_terminator c then None
      else lazy_to_slash k (c # acc) cs)"

definition is_flag :: "char \<Rightarrow> bool" where
  "is_flag c = (c \<in> set ''gimsuy'')"

definition match_flags :: "string \<Rightarrow> string option" where
  "match_flags s = (if list_all is_flag s then Some s else None)"

text \<open>The match: pattern, replacement and flags, or \<^const>\<open>None\<close> for \<^verbatim>\<open>null\<close>.\<close>

definition match_command :: "string \<Rightarrow> (string \<times> string \<times> string) option" where
  "match_command command =
     (case command of
        c1 # c2 # rest \<Rightarrow>
          if c1 = CHR ''s'' \<and> c2 = CHR ''/''
          then lazy_to_slash (lazy_to_slash match_flags []) [] rest
          else None
      | _ \<Rightarrow> None)"

definition parseSubstitutionCommand ::
    "('dom, 'rx) env \<Rightarrow> string \<Rightarrow> error + ('rx \<times> string)" where
  "parseSubstitutionCommand E command =
     (case match_command command of
        Some (pattern, replacement, flags) \<Rightarrow>
          (case new_RegExp E pattern flags of
             None \<Rightarrow> Inl RegExpSyntaxError
           | Some rx \<Rightarrow> Inr (rx, replacement))
      | None \<Rightarrow> Inl InvalidSubstitutionCommand)"

definition substituteTitle :: "('dom, 'rx) env \<Rightarrow> string \<Rightarrow> string \<Rightarrow> error + string" where
  "substituteTitle E title command =
     (if command = [] \<or> length command < 1 \<or> \<not> prefix ''s/'' command then Inr title
      else
        (case parseSubstitutionCommand E command of
           Inl e \<Rightarrow> Inl e
         | Inr (pattern, replacement) \<Rightarrow> Inr (str_replace E title pattern replacement)))"

text \<open>
  The loop \<^verbatim>\<open>for (command of replaceTitle) title = substituteTitle(title, command)\<close>;
  a command that throws ends it.
\<close>

fun substituteAll :: "('dom, 'rx) env \<Rightarrow> string \<Rightarrow> string list \<Rightarrow> error + string" where
  "substituteAll E title [] = Inr title"
| "substituteAll E title (command # commands) =
     (case substituteTitle E title command of
        Inl e \<Rightarrow> Inl e
      | Inr title' \<Rightarrow> substituteAll E title' commands)"

text \<open>
  A command that title rewriting gets through: one that \<^verbatim>\<open>substituteTitle\<close> returns
  early on, or one that \<^verbatim>\<open>parseSubstitutionCommand\<close> parses.
\<close>

definition accepted :: "('dom, 'rx) env \<Rightarrow> string \<Rightarrow> bool" where
  "accepted E command = (prefix ''s/'' command \<longrightarrow> \<not> isl (parseSubstitutionCommand E command))"

text \<open>
  Lines 183 to 186 of \<^verbatim>\<open>processUrl\<close> (and 301 to 304 of the full mode's): the commands
  in order, then \<^verbatim>\<open>cleanTitle\<close>.
\<close>

definition rewriteTitle :: "('dom, 'rx) env \<Rightarrow> string list \<Rightarrow> string \<Rightarrow> error + string" where
  "rewriteTitle E commands title =
     (case substituteAll E title commands of
        Inl e \<Rightarrow> Inl e
      | Inr title' \<Rightarrow> Inr (cleanTitle title'))"

text \<open>
  \<^verbatim>\<open>capitalizeString\<close>; the argument is always a string here, and the empty one is
  falsy.
\<close>

definition capitalizeString :: "('dom, 'rx) env \<Rightarrow> string \<Rightarrow> string" where
  "capitalizeString E str =
     (if str = [] then [] else toUpperCase E (take 1 str) @ toLowerCase E (drop 1 str))"

section \<open>Fetching and extracting\<close>

text \<open>
  \<^verbatim>\<open>fetchHtml\<close>, \<^verbatim>\<open>getTitle\<close> and \<^verbatim>\<open>getDescription\<close> wrap their bodies in
  \<^verbatim>\<open>try\<close>/\<^verbatim>\<open>catch\<close> and return \<^verbatim>\<open>null\<close> on any error. A description is a string,
  \<^verbatim>\<open>undefined\<close> (no such attribute) or \<^verbatim>\<open>null\<close>.
\<close>

datatype description = Undefined | Null | Text string

definition fetchHtml :: "('dom, 'rx) env \<Rightarrow> string \<Rightarrow> string option" where
  "fetchHtml E url = request_text E url"

definition getTitle :: "('dom, 'rx) env \<Rightarrow> string \<Rightarrow> string option" where
  "getTitle E html =
     (case cheerio_load E html of
        None \<Rightarrow> None
      | Some doc \<Rightarrow> Some (trim (sel_text E doc HeadTitle)))"

definition falsy :: "string option \<Rightarrow> bool" where
  "falsy v = (v = None \<or> v = Some [])"

definition getDescription :: "('dom, 'rx) env \<Rightarrow> string \<Rightarrow> description" where
  "getDescription E html =
     (case cheerio_load E html of
        None \<Rightarrow> Null
      | Some doc \<Rightarrow>
          (let d1 = sel_content E doc MetaDescription;
               d2 = (if falsy d1 then sel_content E doc MetaOgDescription else d1);
               d3 = (if falsy d2 then sel_content E doc MetaTwitterDescription else d2)
           in case d3 of None \<Rightarrow> Undefined | Some s \<Rightarrow> Text s))"

section \<open>The filter\<close>

text \<open>
  The options of a run, as commander hands them over; an option that was not given is
  \<^verbatim>\<open>undefined\<close>, and \<^verbatim>\<open>options.excludePath || []\<close> and its two siblings are the lists
  below. The concurrency is a natural number: \<^verbatim>\<open>options.concurrency || 5\<close> replaces an
  absent one, \<^verbatim>\<open>NaN\<close> and 0 by 5.
\<close>

record options =
  opt_excludePath :: "string list"
  opt_includePath :: "string list"
  opt_replaceTitle :: "string list"
  opt_title :: "string option"
  opt_description :: "string option"
  opt_concurrency :: "nat option"

text \<open>
  \<^verbatim>\<open>picomatch(excludePaths)\<close> and \<^verbatim>\<open>picomatch(includePaths, { ignore: excludePaths })\<close>:
  the matcher of a list of globs accepts what one of them accepts, and a matcher with an
  \<^verbatim>\<open>ignore\<close> option refuses what one of the ignored globs accepts. Both are applied to
  the URL as the sitemap lists it.
\<close>

definition isExcluded :: "('dom, 'rx) env \<Rightarrow> options \<Rightarrow> string \<Rightarrow> bool" where
  "isExcluded E opts url = list_ex (\<lambda>g. glob_match E g url) (opt_excludePath opts)"

definition isIncluded :: "('dom, 'rx) env \<Rightarrow> options \<Rightarrow> string \<Rightarrow> bool" where
  "isIncluded E opts url =
     list_ex (\<lambda>g. glob_match E g url \<and> \<not> list_ex (\<lambda>x. glob_match E x url) (opt_excludePath opts))
       (opt_includePath opts)"

text \<open>The two guards that open \<^verbatim>\<open>processUrl\<close> in both modes: a URL that passes is fetched.\<close>

definition shouldProcess :: "('dom, 'rx) env \<Rightarrow> options \<Rightarrow> string \<Rightarrow> bool" where
  "shouldProcess E opts url =
     (if isExcluded E opts url then False
      else if opt_includePath opts \<noteq> [] \<and> \<not> isIncluded E opts url then False
      else True)"

section \<open>The per-URL pipeline, index mode\<close>

record page =
  title :: string
  url :: string
  description :: description
  sect :: string

text \<open>
  The field \<open>sect\<close> is the field \<^verbatim>\<open>section\<close> of the program.
  \<^verbatim>\<open>processUrl\<close> of \<^verbatim>\<open>gen\<close>: \<^const>\<open>Inr\<close> \<^const>\<open>None\<close> is the \<^verbatim>\<open>null\<close> it returns for a
  page it skips, \<^const>\<open>Inl\<close> an error it throws. The only statement outside a
  \<^verbatim>\<open>try\<close> that can throw is the title rewriting. The progress text it writes to the
  spinner is read by nothing and is left out.
\<close>

definition processUrl :: "('dom, 'rx) env \<Rightarrow> options \<Rightarrow> string \<Rightarrow> nat \<Rightarrow> error + page option" where
  "processUrl E opts u index =
     (if isExcluded E opts u then Inr None
      else if opt_includePath opts \<noteq> [] \<and> \<not> isIncluded E opts u then Inr None
      else
        (case fetchHtml E u of
           None \<Rightarrow> Inr None
         | Some html \<Rightarrow>
             if html = [] then Inr None
             else
               (case getTitle E html of
                  None \<Rightarrow> Inr None
                | Some t \<Rightarrow>
                    if t = [] then Inr None
                    else
                      (case rewriteTitle E (opt_replaceTitle opts) t of
                         Inl e \<Rightarrow> Inl e
                       | Inr t' \<Rightarrow>
                           Inr (Some \<lparr>title = t', url = u,
                                      description = getDescription E html,
                                      sect = parseSection E u\<rparr>)))))"

section \<open>The batch scheduler\<close>

text \<open>
  A processor is the \<^verbatim>\<open>async\<close> function handed to \<^verbatim>\<open>processInBatches\<close>: it gets an item
  and its index, may change the state it closes over (the arrays \<^verbatim>\<open>skipped\<close> and
  \<^verbatim>\<open>pageInfos\<close> of the full mode), and resolves to a value, \<^const>\<open>None\<close> for a falsy one,
  or rejects with an error.
\<close>

type_synonym ('a, 'r, 's) processor = "'a \<Rightarrow> nat \<Rightarrow> 's \<Rightarrow> (error + 'r option) \<times> 's"

text \<open>
  \<^verbatim>\<open>batch.map(async (item, index) => processor(item, i + index))\<close>: every item of the
  batch is handed to the processor, the item at position \<open>index\<close> with \<open>i + index\<close>. The
  effects on the state are taken here in the order of the indices. The program takes
  them in another order inside a batch: a pipeline that returns before its first
  \<^verbatim>\<open>await\<close> (a URL that the filter rejects) pushes its record when it is launched, and
  the others push theirs after their requests, in the order in which these end. So the
  arrays of the model are those of the program up to the order of the records of one
  batch, and what is proved below of the arrays does not depend on their order.
\<close>

fun run_batch :: "('a, 'r, 's) processor \<Rightarrow> nat \<Rightarrow> 'a list \<Rightarrow> 's \<Rightarrow> (error + 'r option) list \<times> 's" where
  "run_batch processor i [] s = ([], s)"
| "run_batch processor i (item # batch) s =
     (case processor item i s of
        (r, s') \<Rightarrow> (case run_batch processor (Suc i) batch s' of (rs, s'') \<Rightarrow> (r # rs, s'')))"

text \<open>
  \<^verbatim>\<open>await Promise.all(batchPromises)\<close>: the values in the order of the promises, whatever
  the order they settle in, or the error of a promise that rejects (of the one with the
  least index here; which one it is when several reject depends on the network).
\<close>

fun promise_all :: "('e + 'v) list \<Rightarrow> 'e + 'v list" where
  "promise_all [] = Inr []"
| "promise_all (Inl e # ps) = Inl e"
| "promise_all (Inr v # ps) = (case promise_all ps of Inl e \<Rightarrow> Inl e | Inr vs \<Rightarrow> Inr (v # vs))"

text \<open>\<^verbatim>\<open>items.slice(start, end)\<close> for indices that are not negative.\<close>

definition slice :: "'a list \<Rightarrow> nat \<Rightarrow> nat \<Rightarrow> 'a list" where
  "slice xs start end = take (end - start) (drop start xs)"

text \<open>
  The \<^verbatim>\<open>for\<close> loop of \<^verbatim>\<open>processInBatches\<close>. It need not end (a concurrency of 0 never
  advances \<open>i\<close>), so it is a partial function and \<^const>\<open>None\<close> is a run that does not
  return. A rejected \<^verbatim>\<open>Promise.all\<close> throws out of the loop; the state given with the
  error is the one that the pipelines of the batch leave when all of them have settled,
  and the program may catch the error before that. \<open>launched\<close> is not a
  variable of the program: it records, for every iteration, the indices whose pipelines
  the iteration launched. The counter \<^verbatim>\<open>processedItems\<close> is read by nothing and is
  left out.
\<close>

partial_function (option) batch_loop ::
    "'a list \<Rightarrow> ('a, 'r, 's) processor \<Rightarrow> nat \<Rightarrow> nat \<Rightarrow> 'r option list \<Rightarrow> nat list list \<Rightarrow> 's
      \<Rightarrow> ((error + 'r option list) \<times> nat list list \<times> 's) option" where
  "batch_loop items processor concurrency i results launched s =
     (if i < length items then
        (let batch = slice items i (i + concurrency);
             launched' = launched @ [[i..<i + length batch]]
         in case run_batch processor i batch s of
              (outcomes, s') \<Rightarrow>
                (case promise_all outcomes of
                   Inl e \<Rightarrow> Some (Inl e, launched', s')
                 | Inr batchResults \<Rightarrow>
                     batch_loop items processor concurrency (i + concurrency)
                       (results @ batchResults) launched' s'))
      else Some (Inr results, launched, s))"

declare batch_loop.simps [code]

text \<open>\<^verbatim>\<open>return results.filter(Boolean)\<close> drops the falsy results.\<close>

definition processInBatches ::
    "'a list \<Rightarrow> ('a, 'r, 's) processor \<Rightarrow> nat \<Rightarrow> 's \<Rightarrow> ((error + 'r list) \<times> nat list list \<times> 's) option" where
  "processInBatches items processor concurrency s =
     (case batch_loop items processor concurrency 0 [] [] s of
        None \<Rightarrow> None
      | Some (Inl e, launched, s') \<Rightarrow> Some (Inl e, launched, s')
      | Some (Inr results, launched, s') \<Rightarrow> Some (Inr (List.map_filter (\<lambda>r. r) results), launched, s'))"

text \<open>A processor that touches no state, as \<^verbatim>\<open>processUrl\<close> of the index mode.\<close>

definition stateless :: "('a \<Rightarrow> nat \<Rightarrow> error + 'r option) \<Rightarrow> ('a, 'r, 's) processor" where
  "stateless f = (\<lambda>item index s. (f item index, s))"

text \<open>
  What \<^verbatim>\<open>map\<close> and \<^verbatim>\<open>await Promise.all\<close> mean for the pipelines in flight: an
  iteration launches the pipelines of its batch, one after the other and with no
  \<^verbatim>\<open>await\<close> in between, and goes on when all of them have settled, in an order
  \<open>order\<close> that the network decides. A pipeline makes at most one request, between its
  launch and its settlement.
\<close>

datatype event = Launch nat | Settle nat

definition events :: "(nat list \<Rightarrow> nat list) \<Rightarrow> nat list list \<Rightarrow> event list" where
  "events order launched = concat (map (\<lambda>b. map Launch b @ map Settle (order b)) launched)"

text \<open>The number of pipelines in flight after a sequence of events.\<close>

fun in_flight :: "event list \<Rightarrow> int" where
  "in_flight [] = 0"
| "in_flight (Launch k # es) = in_flight es + 1"
| "in_flight (Settle k # es) = in_flight es - 1"

section \<open>The per-URL pipeline, full mode\<close>

datatype skip_reason = Excluded | NotIncluded | FetchFailed | NoTitle

record skipRecord =
  skip_url :: string
  reason :: skip_reason

record pageInfo =
  info_title :: string
  info_url :: string
  info_description :: description
  markdown :: string
  anchor :: string
  lastmod :: "string option"

record full_state =
  skipped :: "skipRecord list"
  pageInfos :: "pageInfo list"

text \<open>\<^verbatim>\<open>{ skipped.push({url, reason}); return null; }\<close>\<close>

definition skip :: "full_state \<Rightarrow> string \<Rightarrow> skip_reason \<Rightarrow> (error + bool option) \<times> full_state" where
  "skip st u r = (Inr None, st\<lparr>skipped := skipped st @ [\<lparr>skip_url = u, reason = r\<rparr>]\<rparr>)"

text \<open>
  The chain of \<^verbatim>\<open>||\<close> that picks the main content: the first truthy fragment, else the
  raw document.
\<close>

fun first_truthy :: "string option list \<Rightarrow> string \<Rightarrow> string" where
  "first_truthy [] d = d"
| "first_truthy (v # vs) d = (if falsy v then first_truthy vs d else the v)"

definition mainHtml :: "('dom, 'rx) env \<Rightarrow> 'dom \<Rightarrow> string \<Rightarrow> string" where
  "mainHtml E doc html =
     first_truthy
       [sel_html E doc MainElement, sel_html E doc RoleMain, sel_html E doc ContentContainers,
        sel_html E doc ArticleElement, sel_html E doc BodyElement] html"

text \<open>
  \<^verbatim>\<open>title.toLowerCase().replace(/[^a-z0-9]+/g, '-')\<close>: every maximal run of other
  characters becomes one dash; \<open>in_run\<close> says that the run has begun.
\<close>

definition is_slug_char :: "char \<Rightarrow> bool" where
  "is_slug_char c = (c \<in> set ''abcdefghijklmnopqrstuvwxyz0123456789'')"

fun dash_runs :: "bool \<Rightarrow> string \<Rightarrow> string" where
  "dash_runs in_run [] = []"
| "dash_runs in_run (c # cs) =
     (if is_slug_char c then c # dash_runs False cs
      else if in_run then dash_runs True cs
      else CHR ''-'' # dash_runs True cs)"

definition anchor_of :: "('dom, 'rx) env \<Rightarrow> string \<Rightarrow> string" where
  "anchor_of E t = dash_runs False (toLowerCase E t)"

text \<open>
  \<^verbatim>\<open>processUrl\<close> of \<^verbatim>\<open>genFull\<close>. \<open>lastMod u\<close> is \<^verbatim>\<open>urlToLastMod[url]\<close>, the table
  built from the sitemap before the crawl. It returns \<^verbatim>\<open>true\<close> for a page and
  \<^verbatim>\<open>null\<close> for a skip. Title rewriting, \<^verbatim>\<open>cheerio.load\<close> and \<^verbatim>\<open>turndown\<close> are
  called outside any \<^verbatim>\<open>try\<close>.
\<close>

definition processUrl_full ::
    "('dom, 'rx) env \<Rightarrow> options \<Rightarrow> (string \<Rightarrow> string option) \<Rightarrow> (string, bool, full_state) processor" where
  "processUrl_full E opts lastMod u index st =
     (if isExcluded E opts u then skip st u Excluded
      else if opt_includePath opts \<noteq> [] \<and> \<not> isIncluded E opts u then skip st u NotIncluded
      else
        (case fetchHtml E u of
           None \<Rightarrow> skip st u FetchFailed
         | Some html \<Rightarrow>
             if html = [] then skip st u FetchFailed
             else
               (case getTitle E html of
                  None \<Rightarrow> skip st u NoTitle
                | Some t \<Rightarrow>
                    if t = [] then skip st u NoTitle
                    else
                      (case rewriteTitle E (opt_replaceTitle opts) t of
                         Inl e \<Rightarrow> (Inl e, st)
                       | Inr t' \<Rightarrow>
                           (case cheerio_load E html of
                              None \<Rightarrow> (Inl CheerioError, st)
                            | Some doc \<Rightarrow>
                                (case turndown E (mainHtml E doc html) of
                                   None \<Rightarrow> (Inl TurndownError, st)
                                 | Some md \<Rightarrow>
                                     (Inr (Some True),
                                      st\<lparr>pageInfos := pageInfos st @
                                        [\<lparr>info_title = t', info_url = u,
                                          info_description = getDescription E html,
                                          markdown = md, anchor = anchor_of E t',
                                          lastmod = lastMod u\<rparr>]\<rparr>)))))))"

definition concurrency_of :: "options \<Rightarrow> nat" where
  "concurrency_of opts =
     (case opt_concurrency opts of None \<Rightarrow> 5 | Some c \<Rightarrow> if c = 0 then 5 else c)"

text \<open>The crawl of \<^verbatim>\<open>genFull\<close>, from the two empty arrays.\<close>

definition crawl_full ::
    "('dom, 'rx) env \<Rightarrow> options \<Rightarrow> (string \<Rightarrow> string option) \<Rightarrow> string list
      \<Rightarrow> ((error + bool list) \<times> nat list list \<times> full_state) option" where
  "crawl_full E opts lastMod sites =
     processInBatches sites (processUrl_full E opts lastMod) (concurrency_of opts)
       \<lparr>skipped = [], pageInfos = []\<rparr>"

section \<open>The aggregator, index mode\<close>

text \<open>
  \<^verbatim>\<open>sections\<close> is a plain object used as a table from section keys to arrays of lines:
  its own properties in the order of their creation. A plain object inherits the
  properties of \<^verbatim>\<open>Object.prototype\<close>, all of them truthy and none of them an array.
\<close>

record line =
  line_title :: string
  line_url :: string
  line_description :: description

type_synonym sections = "(string \<times> line list) list"

definition Object_prototype_keys :: "string list" where
  "Object_prototype_keys =
     [''constructor'', ''__defineGetter__'', ''__defineSetter__'', ''hasOwnProperty'',
      ''__lookupGetter__'', ''__lookupSetter__'', ''isPrototypeOf'', ''propertyIsEnumerable'',
      ''toString'', ''valueOf'', ''__proto__'', ''toLocaleString'']"

fun push_line :: "string \<Rightarrow> line \<Rightarrow> sections \<Rightarrow> sections" where
  "push_line k l [] = [(k, [l])]"
| "push_line k l ((k', ls) # rest) =
     (if k = k' then (k', ls @ [l]) # rest else (k', ls) # push_line k l rest)"

text \<open>
  \<^verbatim>\<open>sections[section] ||= []; sections[section].push({ title, url, description })\<close>:
  a key the object does not own but inherits is truthy, the assignment is skipped, and
  \<^verbatim>\<open>push\<close> is not a function of what is found: a TypeError, \<^const>\<open>None\<close> here.
\<close>

definition add_result :: "sections \<Rightarrow> page \<Rightarrow> sections option" where
  "add_result secs r =
     (if map_of secs (sect r) = None \<and> sect r \<in> set Object_prototype_keys then None
      else Some (push_line (sect r)
                  \<lparr>line_title = title r, line_url = url r, line_description = description r\<rparr> secs))"

text \<open>
  The loop over the results is inside the \<^verbatim>\<open>try\<close>: an error ends it and leaves the
  sections as they are.
\<close>

fun organize :: "page list \<Rightarrow> sections \<Rightarrow> sections" where
  "organize [] secs = secs"
| "organize (r # rs) secs =
     (case add_result secs r of None \<Rightarrow> secs | Some secs' \<Rightarrow> organize rs secs')"

text \<open>
  \<^verbatim>\<open>for (const section in sections)\<close> visits the own keys that are array indices first,
  in ascending numeric order, then the other keys in the order of their creation. An
  array index is the canonical decimal numeral of a number below \<open>2\<^sup>3\<^sup>2 - 1\<close>.
\<close>

definition is_digit :: "char \<Rightarrow> bool" where
  "is_digit c = (c \<in> set ''0123456789'')"

definition numeric_value :: "string \<Rightarrow> int" where
  "numeric_value k = foldl (\<lambda>n c. 10 * n + (of_char c - 48)) 0 k"

definition is_array_index :: "string \<Rightarrow> bool" where
  "is_array_index k =
     (k \<noteq> [] \<and> list_all is_digit k \<and> (k = ''0'' \<or> hd k \<noteq> CHR ''0'')
      \<and> numeric_value k < 2 ^ 32 - 1)"

definition for_in :: "sections \<Rightarrow> sections" where
  "for_in secs =
     sort_key (\<lambda>(k, ls). numeric_value k) (filter (\<lambda>(k, ls). is_array_index k) secs)
     @ filter (\<lambda>(k, ls). \<not> is_array_index k) secs"

record document =
  doc_title :: string
  doc_description :: string
  doc_sections :: sections

definition truthy_string :: "string option \<Rightarrow> bool" where
  "truthy_string v = (\<not> falsy v)"

text \<open>A description inside a template literal.\<close>

definition show_description :: "description \<Rightarrow> string" where
  "show_description d = (case d of Undefined \<Rightarrow> ''undefined'' | Null \<Rightarrow> ''null'' | Text s \<Rightarrow> s)"

text \<open>
  Lines 218 to 248: \<^verbatim>\<open>root\<close> is taken out of the sections, the title and the
  description come from the options, else from the first line of \<^verbatim>\<open>root\<close>, else from
  the defaults, and the sections left are visited by \<^verbatim>\<open>for\<close>-\<^verbatim>\<open>in\<close>.
\<close>

definition assemble :: "options \<Rightarrow> sections \<Rightarrow> document" where
  "assemble opts secs =
     (let root = (case map_of secs ''ROOT'' of None \<Rightarrow> [] | Some ls \<Rightarrow> ls);
          secs' = filter (\<lambda>(k, ls). k \<noteq> ''ROOT'') secs;
          defaultTitle =
            (if truthy_string (opt_title opts) then the (opt_title opts) else ''Documentation'');
          defaultDescription =
            (if truthy_string (opt_description opts) then the (opt_description opts)
             else ''Generated documentation'')
      in \<lparr>doc_title =
            (if truthy_string (opt_title opts) then the (opt_title opts)
             else (case root of [] \<Rightarrow> defaultTitle | l # _ \<Rightarrow> line_title l)),
          doc_description =
            (if truthy_string (opt_description opts) then the (opt_description opts)
             else (case root of [] \<Rightarrow> defaultDescription
                   | l # _ \<Rightarrow> show_description (line_description l))),
          doc_sections = for_in secs'\<rparr>)"

definition render_line :: "line \<Rightarrow> string" where
  "render_line l =
     [CHR 0x0A] @ ''- ['' @ line_title l @ '']('' @ line_url l @ '')'' @
     (case line_description l of
        Text s \<Rightarrow> if s \<noteq> [] then '': '' @ s else []
      | _ \<Rightarrow> [])"

definition render_section :: "('dom, 'rx) env \<Rightarrow> string \<times> line list \<Rightarrow> string" where
  "render_section E ks =
     ''## '' @ capitalizeString E (fst ks) @ [CHR 0x0A] @ concat (map render_line (snd ks))
     @ [CHR 0x0A, CHR 0x0A]"

definition render :: "('dom, 'rx) env \<Rightarrow> document \<Rightarrow> string" where
  "render E d =
     ''# '' @ doc_title d @ [CHR 0x0A, CHR 0x0A] @ ''> '' @ doc_description d @ [CHR 0x0A, CHR 0x0A]
     @ concat (map (render_section E) (doc_sections d))"

text \<open>
  \<^verbatim>\<open>gen\<close>: the sections that the \<^verbatim>\<open>try\<close> block leaves (none when the sitemap cannot
  be fetched or the crawl throws), then the document that is printed.
\<close>

definition crawl ::
    "('dom, 'rx) env \<Rightarrow> options \<Rightarrow> string list
      \<Rightarrow> ((error + page list) \<times> nat list list \<times> unit) option" where
  "crawl E opts sites =
     processInBatches sites (stateless (processUrl E opts)) (concurrency_of opts) ()"

definition gen_sections :: "('dom, 'rx) env \<Rightarrow> options \<Rightarrow> string \<Rightarrow> sections option" where
  "gen_sections E opts sitemapUrl =
     (case sitemap_sites E sitemapUrl of
        None \<Rightarrow> Some []
      | Some sites \<Rightarrow>
          (case crawl E opts sites of
             None \<Rightarrow> None
           | Some (Inl e, launched, s) \<Rightarrow> Some []
           | Some (Inr results, launched, s) \<Rightarrow> Some (organize results [])))"

definition gen :: "('dom, 'rx) env \<Rightarrow> options \<Rightarrow> string \<Rightarrow> string option" where
  "gen E opts sitemapUrl =
     (case gen_sections E opts sitemapUrl of
        None \<Rightarrow> None
      | Some secs \<Rightarrow> Some (render E (assemble opts secs)))"

section \<open>The grouping in the words of the specification\<close>

text \<open>
  The keys of a list in the order of their first occurrence, the line of a page, the
  pages grouped by section in first-seen order with the lines of a section in the order
  of the pages, and the order in which \<^verbatim>\<open>for\<close>-\<^verbatim>\<open>in\<close> visits a list of keys.
\<close>

definition first_seen :: "'a list \<Rightarrow> 'a list" where
  "first_seen xs = foldl (\<lambda>acc x. if x \<in> set acc then acc else acc @ [x]) [] xs"

definition line_of :: "page \<Rightarrow> line" where
  "line_of r = \<lparr>line_title = title r, line_url = url r, line_description = description r\<rparr>"

definition grouped :: "page list \<Rightarrow> sections" where
  "grouped results =
     map (\<lambda>k. (k, map line_of (filter (\<lambda>r. sect r = k) results))) (first_seen (map sect results))"

definition index_keys_first :: "string list \<Rightarrow> string list" where
  "index_keys_first ks =
     sort_key numeric_value (filter is_array_index ks) @ filter (\<lambda>k. \<not> is_array_index k) ks"

section \<open>An environment to evaluate examples in\<close>

text \<open>
  The theorems below hold for every environment. The examples are evaluated in this
  one. Its URL parser reads \<^verbatim>\<open>http://host/path?query#fragment\<close> and the same with
  \<^verbatim>\<open>https\<close>, as the URL Standard does when the host is not empty and the path has
  no dot segment and no character that the standard would encode; it throws on anything
  else. A glob without special characters matches the string it is, and a glob that
  ends with \<^verbatim>\<open>/**\<close> and has no other special character matches what extends the part
  before the stars. A document is its text, the title what stands between
  \<^verbatim>\<open><title>\<close> and \<^verbatim>\<open></title>\<close>, and no description is found. A regular expression
  without special characters and flags is its pattern, and replacing it replaces the
  first occurrence of the pattern. The site is the one of the scenario of the
  specification, with one more page.
\<close>

definition http_pathname :: "string \<Rightarrow> string option" where
  "http_pathname uri =
     (let rest =
        (if prefix ''https://'' uri then Some (drop 8 uri)
         else if prefix ''http://'' uri then Some (drop 7 uri)
         else None)
      in case rest of
           None \<Rightarrow> None
         | Some r \<Rightarrow>
             (let host = takeWhile (\<lambda>c. c \<notin> set ''/?#'') r;
                  path = takeWhile (\<lambda>c. c \<notin> set ''?#'') (dropWhile (\<lambda>c. c \<notin> set ''/?#'') r)
              in if host = [] then None else Some (if path = [] then ''/'' else path)))"

definition simple_glob :: "string \<Rightarrow> string \<Rightarrow> bool" where
  "simple_glob g s =
     (if suffix ''/**'' g then prefix (take (length g - 2) g) s else g = s)"

fun after_marker :: "string \<Rightarrow> string \<Rightarrow> string option" where
  "after_marker m [] = (if m = [] then Some [] else None)"
| "after_marker m (c # cs) =
     (if prefix m (c # cs) then Some (drop (length m) (c # cs)) else after_marker m cs)"

fun before_marker :: "string \<Rightarrow> string \<Rightarrow> string" where
  "before_marker m [] = []"
| "before_marker m (c # cs) = (if prefix m (c # cs) then [] else c # before_marker m cs)"

definition title_text :: "string \<Rightarrow> string" where
  "title_text html =
     (case after_marker ''<title>'' html of
        None \<Rightarrow> []
      | Some r \<Rightarrow> before_marker ''</title>'' r)"

fun replace_first :: "string \<Rightarrow> string \<Rightarrow> string \<Rightarrow> string" where
  "replace_first p r [] = (if p = [] then r else [])"
| "replace_first p r (c # cs) =
     (if prefix p (c # cs) then r @ drop (length p) (c # cs) else c # replace_first p r cs)"

definition ascii_upper :: "char \<Rightarrow> char" where
  "ascii_upper c =
     (if c \<in> set ''abcdefghijklmnopqrstuvwxyz'' then char_of (of_char c - (32::nat)) else c)"

definition ascii_lower :: "char \<Rightarrow> char" where
  "ascii_lower c =
     (if c \<in> set ''ABCDEFGHIJKLMNOPQRSTUVWXYZ'' then char_of (of_char c + (32::nat)) else c)"

definition example_pages :: "(string \<times> string) list" where
  "example_pages =
     [(''https://x.test/'', ''<html><head><title>Home</title></head></html>''),
      (''https://x.test/docs/a'', ''<html><head><title>A | Docs</title></head></html>''),
      (''https://x.test/docs/b'', ''<html><head><title>B</title></head></html>''),
      (''https://x.test/blog/c'', ''<html><head><title>C</title></head></html>''),
      (''https://x.test/2024/d'', ''<html><head><title>D</title></head></html>'')]"

definition example_env :: "(string, string) env" where
  "example_env =
     \<lparr>URL_pathname = http_pathname,
      glob_match = simple_glob,
      request_text = map_of example_pages,
      cheerio_load = Some,
      sel_text = (\<lambda>doc sel. if sel = HeadTitle then title_text doc else []),
      sel_content = (\<lambda>doc sel. None),
      sel_html = (\<lambda>doc sel. None),
      new_RegExp = (\<lambda>p f. if f = [] then Some p else None),
      str_replace = (\<lambda>t p r. replace_first p r t),
      turndown = Some,
      toUpperCase = map ascii_upper,
      toLowerCase = map ascii_lower,
      sitemap_sites = (\<lambda>u. Some (map fst example_pages))\<rparr>"

text \<open>What the crawl of the index mode returns for that site with no option set.\<close>

definition example_results :: "page list" where
  "example_results =
     [\<lparr>title = ''Home'', url = ''https://x.test/'', description = Undefined, sect = ''ROOT''\<rparr>,
      \<lparr>title = ''A | Docs'', url = ''https://x.test/docs/a'', description = Undefined, sect = ''docs''\<rparr>,
      \<lparr>title = ''B'', url = ''https://x.test/docs/b'', description = Undefined, sect = ''docs''\<rparr>,
      \<lparr>title = ''C'', url = ''https://x.test/blog/c'', description = Undefined, sect = ''blog''\<rparr>,
      \<lparr>title = ''D'', url = ''https://x.test/2024/d'', description = Undefined, sect = ''2024''\<rparr>]"

definition no_lastmod :: "string \<Rightarrow> string option" where
  "no_lastmod u = None"

definition no_options :: options where
  "no_options =
     \<lparr>opt_excludePath = [], opt_includePath = [], opt_replaceTitle = [],
      opt_title = None, opt_description = None, opt_concurrency = None\<rparr>"

text \<open>
  Options with an exclude glob and a command that \<^verbatim>\<open>parseSubstitutionCommand\<close> rejects,
  the same site with pages that have no title, and the state that the full mode starts
  from.
\<close>

definition strict_options :: options where
  "strict_options =
     no_options\<lparr>opt_excludePath := [''https://x.test/blog/**''], opt_replaceTitle := [''s/x'']\<rparr>"

definition untitled_env :: "(string, string) env" where
  "untitled_env = example_env\<lparr>request_text := (\<lambda>u. Some ''<html><body>no title</body></html>'')\<rparr>"

definition no_records :: full_state where
  "no_records = \<lparr>skipped = [], pageInfos = []\<rparr>"

section \<open>Properties of sections and titles\<close>

lemma split_no_separator: "d \<notin> set seg \<Longrightarrow> split d seg = [seg]"
  by (induction seg) (auto split: list.splits)

lemma split_at_separator: "d \<notin> set seg \<Longrightarrow> split d (seg @ d # r) = seg # split d r"
  by (induction seg) (auto split: list.splits)

lemma split_leading_separators: "split d (replicate k d @ s) = replicate k [] @ split d s"
  by (induction k) auto

lemma filter_leading_empty:
  "filter (\<lambda>s. s \<noteq> []) (replicate k [] @ xs) = filter (\<lambda>s. s \<noteq> []) xs"
  by (induction k) auto

lemma segments_first:
  assumes "seg \<noteq> []" "d \<notin> set seg" "rest = [] \<or> hd rest = d"
  shows "\<exists>more. filter (\<lambda>s. s \<noteq> []) (split d (replicate k d @ seg @ rest)) = seg # more"
proof (cases rest)
  case Nil
  then show ?thesis
    using assms by (simp add: split_leading_separators filter_leading_empty split_no_separator)
next
  case (Cons c r)
  with assms have "rest = d # r" by simp
  then show ?thesis
    using assms by (simp add: split_leading_separators filter_leading_empty split_at_separator)
qed

lemma segments_none: "filter (\<lambda>s. s \<noteq> []) (split d (replicate k d)) = []"
  using split_leading_separators[of d k "[]"] by (simp add: filter_leading_empty)

text \<open>
  C6. The section of a URL is the first non-empty segment of its path, as it stands in
  the path: when the path is some slashes, then a segment without a slash, then nothing
  or a slash and more, the section is that segment. When the path is slashes only, the
  section is \<^verbatim>\<open>ROOT\<close>. The two examples of the specification evaluate as it says.
\<close>

theorem parseSection_first_segment:
  "(URL_pathname E uri = Some (replicate k CHR ''/'' @ seg @ rest) \<and> seg \<noteq> [] \<and> CHR ''/'' \<notin> set seg
      \<and> (rest = [] \<or> hd rest = CHR ''/'') \<longrightarrow> parseSection E uri = seg)
   \<and> (URL_pathname E uri = Some (replicate k CHR ''/'') \<longrightarrow> parseSection E uri = ''ROOT'')
   \<and> parseSection example_env ''https://x.test/'' = ''ROOT''
   \<and> parseSection example_env ''https://x.test/docs/intro'' = ''docs''"
proof (intro conjI impI)
  assume h: "URL_pathname E uri = Some (replicate k CHR ''/'' @ seg @ rest) \<and> seg \<noteq> []
    \<and> CHR ''/'' \<notin> set seg \<and> (rest = [] \<or> hd rest = CHR ''/'')"
  then obtain more where
    "filter (\<lambda>s. s \<noteq> []) (split CHR ''/'' (replicate k CHR ''/'' @ seg @ rest)) = seg # more"
    using segments_first[of seg "CHR ''/''" rest k] by blast
  then show "parseSection E uri = seg" using h by (simp add: parseSection_def)
next
  assume "URL_pathname E uri = Some (replicate k CHR ''/'')"
  then show "parseSection E uri = ''ROOT''" by (simp add: parseSection_def segments_none)
next
  show "parseSection example_env ''https://x.test/'' = ''ROOT''"
    by (simp add: parseSection_def example_env_def http_pathname_def)
next
  show "parseSection example_env ''https://x.test/docs/intro'' = ''docs''"
    by (simp add: parseSection_def example_env_def http_pathname_def)
qed

theorem parseSection_first_segment_witness:
  "URL_pathname example_env ''https://x.test/Docs/intro'' = Some (replicate 1 CHR ''/'' @ ''Docs'' @ ''/intro'')
   \<and> parseSection example_env ''https://x.test/Docs/intro'' = ''Docs''
   \<and> URL_pathname example_env ''https://x.test'' = Some (replicate 1 CHR ''/'')
   \<and> parseSection example_env ''https://x.test'' = ''ROOT''"
  using parseSection_first_segment[of example_env "''https://x.test/Docs/intro''" 1 "''Docs''" "''/intro''"]
    parseSection_first_segment[of example_env "''https://x.test''" 1 "[]" "[]"]
  by (simp add: example_env_def http_pathname_def)

text \<open>
  The claim C10 as the specification states it fails in its last part: a sitemap entry
  that is not a URL is not listed under \<^verbatim>\<open>ROOT\<close>. \<^verbatim>\<open>processUrl\<close> requests the page
  before it calls \<^verbatim>\<open>parseSection\<close>, the request fails, and the entry is skipped: the
  crawl returns no page and the document gets no section from it.
\<close>

theorem unparsable_url_is_skipped:
  "URL_pathname example_env ''not a url'' = None
   \<and> parseSection example_env ''not a url'' = ''ROOT''
   \<and> processUrl example_env no_options ''not a url'' 0 = Inr None
   \<and> crawl example_env no_options [''not a url''] = Some (Inr [], [[0]], ())
   \<and> organize [] [] = []"
  by code_simp

text \<open>
  C10, as the code has it. \<^verbatim>\<open>parseSection\<close> returns a string for every input and
  throws for none (its whole body is inside \<^verbatim>\<open>try\<close>): the result is never the empty
  string, and an input that the URL parser rejects gives \<^verbatim>\<open>ROOT\<close>. The section of a
  page is \<^verbatim>\<open>parseSection\<close> of its URL, and a page exists only for a URL whose request
  has succeeded. A URL that the parser rejects and whose request fails causes no error
  and is listed nowhere: the index mode returns \<^verbatim>\<open>null\<close> for it and the full mode
  records a skip.
\<close>

theorem parseSection_total:
  "parseSection E uri \<noteq> []
   \<and> (URL_pathname E uri = None \<longrightarrow> parseSection E uri = ''ROOT'')
   \<and> (processUrl E opts uri i = Inr (Some p) \<longrightarrow>
        fetchHtml E uri \<noteq> None \<and> sect p = parseSection E uri)
   \<and> (URL_pathname E uri = None \<and> fetchHtml E uri = None \<longrightarrow>
        processUrl E opts uri i = Inr None
        \<and> (\<exists>why. processUrl_full E opts lm uri i st = skip st uri why))"
proof (intro conjI impI)
  show "parseSection E uri \<noteq> []"
  proof (cases "URL_pathname E uri")
    case None
    then show ?thesis by (simp add: parseSection_def)
  next
    case (Some pathname)
    show ?thesis
    proof (cases "filter (\<lambda>s. s \<noteq> []) (split CHR ''/'' pathname)")
      case Nil
      then show ?thesis using Some by (simp add: parseSection_def)
    next
      case (Cons seg more)
      then have "seg \<in> set (filter (\<lambda>s. s \<noteq> []) (split CHR ''/'' pathname))" by simp
      then have "seg \<noteq> []" by simp
      then show ?thesis using Some Cons by (simp add: parseSection_def)
    qed
  qed
next
  assume "URL_pathname E uri = None"
  then show "parseSection E uri = ''ROOT''" by (simp add: parseSection_def)
next
  assume a: "processUrl E opts uri i = Inr (Some p)"
  then show "fetchHtml E uri \<noteq> None"
    by (auto simp: processUrl_def split: if_splits option.splits sum.splits)
  from a show "sect p = parseSection E uri"
    by (auto simp: processUrl_def split: if_splits option.splits sum.splits)
next
  assume a: "URL_pathname E uri = None \<and> fetchHtml E uri = None"
  then show "processUrl E opts uri i = Inr None" by (simp add: processUrl_def)
  from a show "\<exists>why. processUrl_full E opts lm uri i st = skip st uri why"
    by (auto simp: processUrl_full_def)
qed

theorem parseSection_total_witness:
  "URL_pathname example_env ''not a url'' = None
   \<and> fetchHtml example_env ''not a url'' = None
   \<and> parseSection example_env ''not a url'' = ''ROOT''
   \<and> processUrl example_env no_options ''not a url'' 0 = Inr None
   \<and> processUrl_full example_env no_options no_lastmod ''not a url'' 0 no_records
       = skip no_records ''not a url'' FetchFailed
   \<and> processUrl example_env no_options ''https://x.test/docs/a'' 1
       = Inr (Some \<lparr>title = ''A | Docs'', url = ''https://x.test/docs/a'', description = Undefined,
                    sect = ''docs''\<rparr>)
   \<and> fetchHtml example_env ''https://x.test/docs/a''
       = Some ''<html><head><title>A | Docs</title></head></html>''
   \<and> parseSection example_env ''https://x.test/docs/a'' = ''docs''"
proof -
  have facts: "URL_pathname example_env ''not a url'' = None
   \<and> fetchHtml example_env ''not a url'' = None
   \<and> processUrl_full example_env no_options no_lastmod ''not a url'' 0 no_records
       = skip no_records ''not a url'' FetchFailed
   \<and> processUrl example_env no_options ''https://x.test/docs/a'' 1
       = Inr (Some \<lparr>title = ''A | Docs'', url = ''https://x.test/docs/a'', description = Undefined,
                    sect = ''docs''\<rparr>)
   \<and> fetchHtml example_env ''https://x.test/docs/a''
       = Some ''<html><head><title>A | Docs</title></head></html>''"
    by code_simp
  from parseSection_total[where E = example_env and uri = "''not a url''" and opts = no_options and i = 0]
    facts
  have skipped: "parseSection example_env ''not a url'' = ''ROOT''
      \<and> processUrl example_env no_options ''not a url'' 0 = Inr None"
    by blast
  from parseSection_total[where E = example_env and uri = "''https://x.test/docs/a''"
      and opts = no_options and i = 1
      and p = "\<lparr>title = ''A | Docs'', url = ''https://x.test/docs/a'', description = Undefined,
                sect = ''docs''\<rparr>"]
    facts
  have "sect \<lparr>title = ''A | Docs'', url = ''https://x.test/docs/a'', description = Undefined,
               sect = ''docs''\<rparr> = parseSection example_env ''https://x.test/docs/a''"
    by blast
  then have "parseSection example_env ''https://x.test/docs/a'' = ''docs''" by simp
  with facts skipped show ?thesis by simp
qed

lemma rev_drop_take: "rev (dropWhile P (rev u)) @ rev (takeWhile P (rev u)) = u"
  by (simp only: rev_append[symmetric] takeWhile_dropWhile_id rev_rev_ident)

lemma trim_decomp: "takeWhile is_space s @ trim s @ trim_tail s = s"
proof -
  have "trim s @ trim_tail s = dropWhile is_space s"
    unfolding trim_def trim_tail_def by (rule rev_drop_take)
  then show ?thesis by simp
qed

lemma all_space_takeWhile: "list_all is_space (takeWhile is_space s)"
  by (induction s) auto

lemma all_space_trim_tail: "list_all is_space (trim_tail s)"
  unfolding trim_tail_def by (simp add: all_space_takeWhile)

lemma trim_last: "trim s \<noteq> [] \<Longrightarrow> \<not> is_space (last (trim s))"
  by (simp add: trim_def last_rev hd_dropWhile)

lemma trim_hd: "trim s \<noteq> [] \<Longrightarrow> \<not> is_space (hd (trim s))"
proof -
  assume ne: "trim s \<noteq> []"
  have u: "trim s @ trim_tail s = dropWhile is_space s"
    unfolding trim_def trim_tail_def by (rule rev_drop_take)
  have "hd (dropWhile is_space s) = hd (trim s)"
    using ne hd_append2[of "trim s" "trim_tail s"] by (simp add: u)
  moreover have "dropWhile is_space s \<noteq> []" using u ne by (metis append_is_Nil_conv)
  ultimately show ?thesis using hd_dropWhile[of is_space s] by simp
qed

lemma cleanTitle_shape:
  "\<exists>bar pre post. t = bar @ pre @ cleanTitle t @ post \<and> (bar = [] \<or> bar = ''|'') \<and>
     (prefix ''|'' t \<longrightarrow> bar = ''|'') \<and> list_all is_space pre \<and> list_all is_space post"
proof (cases t)
  case Nil
  then show ?thesis by (simp add: cleanTitle_def)
next
  case (Cons c cs)
  show ?thesis
  proof (cases "c = CHR ''|''")
    case True
    let ?u = "dropWhile is_space cs"
    have ct: "cleanTitle t = trim ?u" using Cons True by (simp add: cleanTitle_def strip_bar_def)
    have "takeWhile is_space cs @ takeWhile is_space ?u @ trim ?u @ trim_tail ?u = cs"
      by (simp only: trim_decomp takeWhile_dropWhile_id)
    then have "t = ''|'' @ (takeWhile is_space cs @ takeWhile is_space ?u) @ cleanTitle t @ trim_tail ?u"
      using Cons True ct by simp
    moreover have "list_all is_space (takeWhile is_space cs @ takeWhile is_space ?u)"
      by (simp only: list_all_append all_space_takeWhile)
    ultimately show ?thesis using all_space_trim_tail[of ?u] by blast
  next
    case False
    have ct: "cleanTitle t = trim t" using Cons False by (simp add: cleanTitle_def strip_bar_def)
    have "t = [] @ takeWhile is_space t @ cleanTitle t @ trim_tail t"
      by (simp only: ct trim_decomp append_Nil)
    moreover have "\<not> prefix ''|'' t" using Cons False by simp
    ultimately show ?thesis using all_space_takeWhile[of t] all_space_trim_tail[of t] by blast
  qed
qed

lemma cleanTitle_trimmed:
  "cleanTitle t \<noteq> [] \<Longrightarrow> \<not> is_space (hd (cleanTitle t)) \<and> \<not> is_space (last (cleanTitle t))"
  by (auto simp: cleanTitle_def trim_hd trim_last split: if_splits)

text \<open>
  C9. With no substitution command, rewriting a title only cleans it: the result is the
  title without one bar at its very beginning, if there is one, without the white
  space that follows the bar, and without white space at either end; nothing else of
  the title is changed.
\<close>

theorem rewriteTitle_no_commands:
  "\<exists>bar pre post r. rewriteTitle E [] t = Inr r \<and> t = bar @ pre @ r @ post \<and>
     (bar = [] \<or> bar = ''|'') \<and> (prefix ''|'' t \<longrightarrow> bar = ''|'') \<and>
     list_all is_space pre \<and> list_all is_space post \<and>
     (r \<noteq> [] \<longrightarrow> \<not> is_space (hd r) \<and> \<not> is_space (last r))"
proof -
  obtain bar pre post where
    "t = bar @ pre @ cleanTitle t @ post" "bar = [] \<or> bar = ''|''" "prefix ''|'' t \<longrightarrow> bar = ''|''"
    "list_all is_space pre" "list_all is_space post"
    using cleanTitle_shape[of t] by blast
  moreover have "rewriteTitle E [] t = Inr (cleanTitle t)" by (simp add: rewriteTitle_def)
  ultimately show ?thesis using cleanTitle_trimmed[of t] by blast
qed

theorem rewriteTitle_no_commands_witness:
  "rewriteTitle example_env [] ''|  A | Docs '' = Inr ''A | Docs''
   \<and> rewriteTitle example_env [] '' Home'' = Inr ''Home''"
  using rewriteTitle_no_commands[of example_env "''|  A | Docs ''"]
  by (simp add: rewriteTitle_def cleanTitle_def strip_bar_def trim_def is_space_def)

section \<open>Properties of the filter\<close>

lemma filtered_is_skipped:
  "\<not> shouldProcess E opts u \<Longrightarrow>
     processUrl_full E opts lm u i st = skip st u Excluded
     \<or> processUrl_full E opts lm u i st = skip st u NotIncluded"
  by (auto simp: shouldProcess_def processUrl_full_def split: if_splits)

text \<open>
  The claim C5 as the specification states it fails in one part: the globs are not
  matched against the path of the URL. The exclude glob \<^verbatim>\<open>/blog/**\<close> matches the path
  \<^verbatim>\<open>/blog/c\<close> and not the URL \<^verbatim>\<open>https://x.test/blog/c\<close>, which the matcher is given,
  and the URL stays eligible.
\<close>

theorem path_glob_does_not_exclude:
  "URL_pathname example_env ''https://x.test/blog/c'' = Some ''/blog/c''
   \<and> glob_match example_env ''/blog/**'' ''/blog/c''
   \<and> \<not> glob_match example_env ''/blog/**'' ''https://x.test/blog/c''
   \<and> shouldProcess example_env (no_options\<lparr>opt_excludePath := [''/blog/**'']\<rparr>) ''https://x.test/blog/c''"
  by code_simp

text \<open>
  C5, as the code has it. A URL passes the filter exactly when no exclude glob matches it
  and the include list is empty or one of its globs matches it. The globs are matched
  against the URL as the sitemap lists it, scheme and host included, and not against
  its path: the decision is the same whatever the URL parser makes of the URL. The
  decision is a function of the URL and the two lists, and a URL that does not pass is
  given up before any request: the index mode returns \<^verbatim>\<open>null\<close> for it and the full
  mode records a skip with the reason \<^verbatim>\<open>excluded\<close> or \<^verbatim>\<open>not included\<close>.
\<close>

theorem shouldProcess_iff:
  "(shouldProcess E opts u \<longleftrightarrow>
      \<not> (\<exists>g\<in>set (opt_excludePath opts). glob_match E g u)
      \<and> (opt_includePath opts = [] \<or> (\<exists>g\<in>set (opt_includePath opts). glob_match E g u)))
   \<and> shouldProcess (E\<lparr>URL_pathname := parser\<rparr>) opts u = shouldProcess E opts u
   \<and> (\<not> shouldProcess E opts u \<longrightarrow> processUrl E opts u i = Inr None)
   \<and> (\<not> shouldProcess E opts u \<longrightarrow>
        processUrl_full E opts lm u i st = skip st u Excluded
        \<or> processUrl_full E opts lm u i st = skip st u NotIncluded)"
proof (intro conjI impI)
  show "shouldProcess E opts u \<longleftrightarrow>
      \<not> (\<exists>g\<in>set (opt_excludePath opts). glob_match E g u)
      \<and> (opt_includePath opts = [] \<or> (\<exists>g\<in>set (opt_includePath opts). glob_match E g u))"
    by (auto simp: shouldProcess_def isExcluded_def isIncluded_def list_ex_iff)
next
  show "shouldProcess (E\<lparr>URL_pathname := parser\<rparr>) opts u = shouldProcess E opts u"
    by (simp add: shouldProcess_def isExcluded_def isIncluded_def)
next
  assume "\<not> shouldProcess E opts u"
  then show "processUrl E opts u i = Inr None"
    by (auto simp: shouldProcess_def processUrl_def split: if_splits)
next
  assume "\<not> shouldProcess E opts u"
  then show "processUrl_full E opts lm u i st = skip st u Excluded
        \<or> processUrl_full E opts lm u i st = skip st u NotIncluded"
    by (rule filtered_is_skipped)
qed

theorem shouldProcess_iff_witness:
  "shouldProcess example_env (no_options\<lparr>opt_excludePath := [''https://x.test/blog/**'']\<rparr>)
     ''https://x.test/docs/a''
   \<and> \<not> shouldProcess example_env (no_options\<lparr>opt_excludePath := [''https://x.test/blog/**'']\<rparr>)
     ''https://x.test/blog/c''
   \<and> processUrl example_env (no_options\<lparr>opt_excludePath := [''https://x.test/blog/**'']\<rparr>)
     ''https://x.test/blog/c'' 3 = Inr None
   \<and> processUrl_full example_env (no_options\<lparr>opt_excludePath := [''https://x.test/blog/**'']\<rparr>)
     no_lastmod ''https://x.test/blog/c'' 3 no_records
     = skip no_records ''https://x.test/blog/c'' Excluded"
proof -
  have facts: "shouldProcess example_env (no_options\<lparr>opt_excludePath := [''https://x.test/blog/**'']\<rparr>)
     ''https://x.test/docs/a''
   \<and> \<not> shouldProcess example_env (no_options\<lparr>opt_excludePath := [''https://x.test/blog/**'']\<rparr>)
     ''https://x.test/blog/c''
   \<and> processUrl_full example_env (no_options\<lparr>opt_excludePath := [''https://x.test/blog/**'']\<rparr>)
     no_lastmod ''https://x.test/blog/c'' 3 no_records
     = skip no_records ''https://x.test/blog/c'' Excluded"
    by code_simp
  from shouldProcess_iff[where E = example_env
      and opts = "no_options\<lparr>opt_excludePath := [''https://x.test/blog/**'']\<rparr>"
      and u = "''https://x.test/blog/c''" and i = 3] facts
  have "processUrl example_env (no_options\<lparr>opt_excludePath := [''https://x.test/blog/**'']\<rparr>)
     ''https://x.test/blog/c'' 3 = Inr None"
    by blast
  with facts show ?thesis by simp
qed


section \<open>Properties of the batch scheduler\<close>

lemma run_batch_append:
  "run_batch p i (xs @ ys) s =
     (case run_batch p i xs s of
        (o1, s1) \<Rightarrow> (case run_batch p (i + length xs) ys s1 of (o2, s2) \<Rightarrow> (o1 @ o2, s2)))"
  by (induction xs arbitrary: i s) (auto split: prod.splits)

lemma run_batch_length: "run_batch p i xs s = (outcomes, s') \<Longrightarrow> length outcomes = length xs"
  by (induction xs arbitrary: i s outcomes) (auto split: prod.splits)

lemma promise_all_append:
  "promise_all (a @ b) =
     (case promise_all a of
        Inl e \<Rightarrow> Inl e
      | Inr va \<Rightarrow> (case promise_all b of Inl e \<Rightarrow> Inl e | Inr vb \<Rightarrow> Inr (va @ vb)))"
  by (induction a rule: promise_all.induct) (auto split: sum.splits)

lemma promise_all_append_Inr:
  "promise_all (a @ b) = Inr vs \<longleftrightarrow>
     (\<exists>va vb. promise_all a = Inr va \<and> promise_all b = Inr vb \<and> vs = va @ vb)"
  by (auto simp: promise_all_append split: sum.splits)

lemma promise_all_length: "promise_all a = Inr vs \<Longrightarrow> length vs = length a"
proof (induction a arbitrary: vs)
  case Nil
  then show ?case by simp
next
  case (Cons x a)
  then show ?case by (cases x) (auto split: sum.splits)
qed

lemma batch_loop_total:
  assumes "1 \<le> C"
  shows "\<exists>r. batch_loop items p C i res l s = Some r"
proof (induction "length items - i" arbitrary: i res l s rule: less_induct)
  case less
  show ?case
  proof (cases "i < length items")
    case False
    then show ?thesis by (subst batch_loop.simps) simp
  next
    case True
    obtain outcomes s' where rb: "run_batch p i (slice items i (i + C)) s = (outcomes, s')"
      by force
    show ?thesis
    proof (cases "promise_all outcomes")
      case (Inl e)
      then show ?thesis using True rb by (subst batch_loop.simps) (simp add: Let_def)
    next
      case (Inr vs)
      have "length items - (i + C) < length items - i" using True assms by simp
      from less[OF this] show ?thesis
        using True rb Inr by (subst batch_loop.simps) (simp add: Let_def)
    qed
  qed
qed

lemma slice_chunk: "slice items i (i + C) @ drop (i + C) items = drop i items"
  by (simp add: slice_def add.commute flip: drop_drop)

lemma run_batch_rest:
  "run_batch p (i + length (slice items i (i + C))) (drop (i + C) items) s
     = run_batch p (i + C) (drop (i + C) items) s"
proof (cases "i + C \<le> length items")
  case True
  then show ?thesis by (simp add: slice_def)
next
  case False
  then show ?thesis by simp
qed

lemma batch_loop_ok:
  assumes "1 \<le> C"
  shows "run_batch p i (drop i items) s = (outcomes, s') \<Longrightarrow> promise_all outcomes = Inr vs
    \<Longrightarrow> \<exists>l'. batch_loop items p C i res l s = Some (Inr (res @ vs), l', s')"
proof (induction "length items - i" arbitrary: i res l s outcomes vs s' rule: less_induct)
  case less
  show ?case
  proof (cases "i < length items")
    case False
    then have "outcomes = []" "s' = s" using less.prems by auto
    then have "vs = []" using less.prems by simp
    then show ?thesis using False \<open>s' = s\<close> by (subst batch_loop.simps) simp
  next
    case True
    let ?batch = "slice items i (i + C)"
    obtain o1 s1 where rb: "run_batch p i ?batch s = (o1, s1)" by force
    obtain o2 s2 where rr: "run_batch p (i + C) (drop (i + C) items) s1 = (o2, s2)" by force
    have "run_batch p i (?batch @ drop (i + C) items) s = (o1 @ o2, s2)"
      by (simp add: run_batch_append rb run_batch_rest rr)
    then have eq: "outcomes = o1 @ o2" "s' = s2"
      using less.prems(1) by (simp_all add: slice_chunk)
    then obtain va vb where v: "promise_all o1 = Inr va" "promise_all o2 = Inr vb" "vs = va @ vb"
      using less.prems(2) by (auto simp: promise_all_append_Inr)
    have "length items - (i + C) < length items - i" using True assms by simp
    from less.hyps[OF this rr v(2), of "res @ va" "l @ [[i..<i + length ?batch]]"]
    show ?thesis
      using True rb v eq by (subst batch_loop.simps) (simp add: Let_def)
  qed
qed

lemma batch_loop_launched:
  assumes "1 \<le> C"
  shows "batch_loop items p C i res l s = Some (r, l', s') \<Longrightarrow>
    \<exists>bs. l' = l @ bs \<and> (\<forall>b\<in>set bs. b \<noteq> [] \<and> length b \<le> C)
       \<and> prefix (concat bs) [i..<length items] \<and> (\<not> isl r \<longrightarrow> concat bs = [i..<length items])"
proof (induction "length items - i" arbitrary: i res l s rule: less_induct)
  case less
  show ?case
  proof (cases "i < length items")
    case False
    then have "l' = l" using less.prems by (subst (asm) batch_loop.simps) simp
    then show ?thesis using False by simp
  next
    case True
    let ?batch = "slice items i (i + C)"
    let ?b0 = "[i..<i + length ?batch]"
    have len: "length ?batch = min C (length items - i)" by (simp add: slice_def)
    have b0: "?b0 \<noteq> []" "length ?b0 \<le> C" using True assms len by auto
    have split_upt: "[i..<length items] = ?b0 @ [i + length ?batch..<length items]"
      using len by (metis le_add1 le_add_diff_inverse less_or_eq_imp_le min.cobounded2 nat_add_left_cancel_le True upt_add_eq_append)
    obtain outcomes s1 where rb: "run_batch p i ?batch s = (outcomes, s1)" by force
    show ?thesis
    proof (cases "promise_all outcomes")
      case (Inl e)
      then have "l' = l @ [?b0]" "r = Inl e"
        using less.prems True rb by (subst (asm) batch_loop.simps, simp add: Let_def)+
      then show ?thesis using b0 split_upt by (intro exI[of _ "[?b0]"]) simp
    next
      case (Inr vs)
      have rec: "batch_loop items p C (i + C) (res @ vs) (l @ [?b0]) s1 = Some (r, l', s')"
        using less.prems True rb Inr by (subst (asm) batch_loop.simps) (simp add: Let_def)
      have "length items - (i + C) < length items - i" using True assms by simp
      from less.hyps[OF this rec] obtain bs where bs:
        "l' = (l @ [?b0]) @ bs" "\<forall>b\<in>set bs. b \<noteq> [] \<and> length b \<le> C"
        "prefix (concat bs) [i + C..<length items]"
        "\<not> isl r \<longrightarrow> concat bs = [i + C..<length items]" by blast
      have tail: "[i + length ?batch..<length items] = [i + C..<length items]"
        using len by (cases "C \<le> length items - i") auto
      show ?thesis
        using bs b0 split_upt tail by (intro exI[of _ "?b0 # bs"]) simp
    qed
  qed
qed

lemma in_flight_append: "in_flight (a @ b) = in_flight a + in_flight b"
  by (induction a rule: in_flight.induct) auto

lemma in_flight_Launch: "in_flight (map Launch b) = int (length b)"
  by (induction b) auto

lemma in_flight_Settle: "in_flight (map Settle b) = - int (length b)"
  by (induction b) auto

lemma in_flight_block_prefix:
  assumes "length c = length b" "prefix es (map Launch b @ map Settle c)"
  shows "0 \<le> in_flight es \<and> in_flight es \<le> int (length b)"
proof -
  from assms(2) consider "prefix es (map Launch b)"
    | us where "es = map Launch b @ us" "prefix us (map Settle c)"
    by (auto simp: prefix_append)
  then show ?thesis
  proof cases
    case 1
    then obtain k where "es = map Launch (take k b)"
      by (metis prefix_def take_map append_eq_conv_conj)
    then show ?thesis by (simp add: in_flight_Launch)
  next
    case 2
    then obtain k where "us = map Settle (take k c)"
      by (metis prefix_def take_map append_eq_conv_conj)
    then show ?thesis using 2 assms(1) by (simp add: in_flight_append in_flight_Launch in_flight_Settle)
  qed
qed

lemma in_flight_events:
  assumes "\<And>b. length (order b) = length b" "\<forall>b\<in>set bs. length b \<le> C"
    "prefix es (events order bs)"
  shows "0 \<le> in_flight es \<and> in_flight es \<le> int C"
  using assms(2,3)
proof (induction bs arbitrary: es)
  case Nil
  then show ?case by (simp add: events_def)
next
  case (Cons b bs)
  let ?B = "map Launch b @ map Settle (order b)"
  have ev: "events order (b # bs) = ?B @ events order bs" by (simp add: events_def)
  from Cons.prems(2) consider "prefix es ?B" | us where "es = ?B @ us" "prefix us (events order bs)"
    unfolding ev by (auto simp: prefix_append)
  then show ?case
  proof cases
    case 1
    then show ?thesis using in_flight_block_prefix[OF assms(1)[of b] 1] Cons.prems(1) by simp
  next
    case 2
    have "in_flight ?B = 0" by (simp add: in_flight_append in_flight_Launch in_flight_Settle assms(1))
    then have "in_flight es = in_flight us" using 2(1) in_flight_append[of ?B us] by simp
    then show ?thesis using Cons.IH[OF _ 2(2)] Cons.prems(1) by simp
  qed
qed


lemma run_batch_stateless:
  "run_batch (stateless f) i xs s = (map (\<lambda>(x, j). f x j) (zip xs [i..<i + length xs]), s)"
proof (induction xs arbitrary: i)
  case Nil
  then show ?case by simp
next
  case (Cons x xs)
  have "[i..<i + length (x # xs)] = i # [Suc i..<Suc i + length xs]"
    by (simp add: upt_rec)
  then show ?case using Cons[of "Suc i"] by (simp add: stateless_def)
qed

lemma zip_indices: "zip xs [0..<length xs] = map (\<lambda>i. (xs ! i, i)) [0..<length xs]"
  by (rule nth_equalityI) simp_all

lemma run_batch_stateless_all:
  "run_batch (stateless f) 0 items s = (map (\<lambda>i. f (items ! i) i) [0..<length items], s)"
  by (simp add: run_batch_stateless zip_indices comp_def)

lemma promise_all_no_error: "\<forall>r\<in>set rs. \<not> isl r \<Longrightarrow> promise_all rs = Inr (map projr rs)"
proof (induction rs)
  case Nil
  then show ?case by simp
next
  case (Cons r rs)
  then show ?case by (cases r) simp_all
qed

lemma map_filter_map: "List.map_filter h (map g xs) = List.map_filter (\<lambda>x. h (g x)) xs"
  by (induction xs) (simp_all add: List.map_filter_def)

lemma length_map_filter: "length (List.map_filter h xs) \<le> length xs"
  by (simp add: List.map_filter_def)

lemma processInBatches_ok:
  assumes "1 \<le> C" "run_batch p 0 items s = (outcomes, s')" "promise_all outcomes = Inr vs"
  shows "\<exists>launched. processInBatches items p C s = Some (Inr (List.map_filter (\<lambda>r. r) vs), launched, s')"
proof -
  from batch_loop_ok[OF assms(1), of p 0 items s outcomes s' vs "[]" "[]"] assms(2,3)
  obtain l' where "batch_loop items p C 0 [] [] s = Some (Inr vs, l', s')" by auto
  then show ?thesis by (simp add: processInBatches_def)
qed

lemma processInBatches_stateless:
  assumes "1 \<le> C" "\<forall>i<length items. \<not> isl (f (items ! i) i)"
  shows "\<exists>launched.
      processInBatches items (stateless f) C s =
        Some (Inr (List.map_filter (\<lambda>i. projr (f (items ! i) i)) [0..<length items]), launched, s)
      \<and> length (List.map_filter (\<lambda>i. projr (f (items ! i) i)) [0..<length items]) \<le> length items"
proof -
  let ?outcomes = "map (\<lambda>i. f (items ! i) i) [0..<length items]"
  have "\<forall>r\<in>set ?outcomes. \<not> isl r" using assms(2) by auto
  then have pa: "promise_all ?outcomes = Inr (map projr ?outcomes)"
    by (rule promise_all_no_error)
  have rb: "run_batch (stateless f) 0 items s = (?outcomes, s)"
    by (rule run_batch_stateless_all)
  from processInBatches_ok[OF assms(1) rb pa]
  obtain launched where
    "processInBatches items (stateless f) C s =
       Some (Inr (List.map_filter (\<lambda>r. r) (map projr ?outcomes)), launched, s)" by blast
  moreover have "List.map_filter (\<lambda>r. r) (map projr ?outcomes)
      = List.map_filter (\<lambda>i. projr (f (items ! i) i)) [0..<length items]"
    by (simp add: map_filter_map)
  moreover have "length (List.map_filter (\<lambda>i. projr (f (items ! i) i)) [0..<length items]) \<le> length items"
    using length_map_filter[of _ "[0..<length items]"] by simp
  ultimately show ?thesis by simp
qed

text \<open>
  C1, as the code has it. For a concurrency of at least 1 and a processor that is a
  function of the item and its index and throws for none of them, \<^verbatim>\<open>processInBatches\<close>
  returns, in the order of the input, the results that are not \<^verbatim>\<open>null\<close>: the result
  of item \<open>i\<close> comes before the result of item \<open>j\<close> when \<open>i < j\<close>, whatever the
  concurrency, and a \<^verbatim>\<open>null\<close> result leaves no entry, so the sequence is at most
  as long as the input.
\<close>

theorem processInBatches_order:
  assumes "1 \<le> C" "\<forall>i<length items. \<not> isl (f (items ! i) i)"
  shows "\<exists>launched.
      processInBatches items (stateless f) C s =
        Some (Inr (List.map_filter (\<lambda>i. projr (f (items ! i) i)) [0..<length items]), launched, s)
      \<and> length (List.map_filter (\<lambda>i. projr (f (items ! i) i)) [0..<length items]) \<le> length items"
  using assms by (rule processInBatches_stateless)

theorem processInBatches_order_witness:
  "processInBatches [''https://x.test/docs/a'', ''https://x.test/nowhere'', ''https://x.test/docs/b'']
     (stateless (processUrl example_env no_options)) 2 ()
   = Some (Inr [\<lparr>title = ''A | Docs'', url = ''https://x.test/docs/a'', description = Undefined, sect = ''docs''\<rparr>,
                \<lparr>title = ''B'', url = ''https://x.test/docs/b'', description = Undefined, sect = ''docs''\<rparr>],
           [[0, 1], [2]], ())"
proof -
  have "\<exists>launched.
      processInBatches [''https://x.test/docs/a'', ''https://x.test/nowhere'', ''https://x.test/docs/b'']
        (stateless (processUrl example_env no_options)) 2 () =
        Some (Inr (List.map_filter
          (\<lambda>i. projr (processUrl example_env no_options
             ([''https://x.test/docs/a'', ''https://x.test/nowhere'', ''https://x.test/docs/b''] ! i) i))
          [0..<length [''https://x.test/docs/a'', ''https://x.test/nowhere'', ''https://x.test/docs/b'']]),
          launched, ())
      \<and> length (List.map_filter
          (\<lambda>i. projr (processUrl example_env no_options
             ([''https://x.test/docs/a'', ''https://x.test/nowhere'', ''https://x.test/docs/b''] ! i) i))
          [0..<length [''https://x.test/docs/a'', ''https://x.test/nowhere'', ''https://x.test/docs/b'']])
        \<le> length [''https://x.test/docs/a'', ''https://x.test/nowhere'', ''https://x.test/docs/b'']"
    by (rule processInBatches_order) (code_simp, code_simp)
  moreover have "processInBatches [''https://x.test/docs/a'', ''https://x.test/nowhere'', ''https://x.test/docs/b'']
     (stateless (processUrl example_env no_options)) 2 ()
   = Some (Inr [\<lparr>title = ''A | Docs'', url = ''https://x.test/docs/a'', description = Undefined, sect = ''docs''\<rparr>,
                \<lparr>title = ''B'', url = ''https://x.test/docs/b'', description = Undefined, sect = ''docs''\<rparr>],
           [[0, 1], [2]], ())"
    by code_simp
  ultimately show ?thesis by fast
qed

text \<open>
  The claim as the specification states it fails: a page that cannot be fetched returns
  \<^verbatim>\<open>null\<close>, \<^verbatim>\<open>filter(Boolean)\<close> removes it, and the result has one entry for two
  URLs, the entry at index 0 being the page of the URL at index 1.
\<close>

theorem processInBatches_drops_null:
  "processInBatches [''https://x.test/nowhere'', ''https://x.test/'']
     (stateless (processUrl example_env no_options)) 5 ()
   = Some (Inr [\<lparr>title = ''Home'', url = ''https://x.test/'', description = Undefined, sect = ''ROOT''\<rparr>],
           [[0, 1]], ())
   \<and> length [\<lparr>title = ''Home'', url = ''https://x.test/'', description = Undefined, sect = ''ROOT''\<rparr>]
       \<noteq> length [''https://x.test/nowhere'', ''https://x.test/'']"
  by code_simp

text \<open>
  C8. For a concurrency \<open>C\<close> of at least 1 and any order in which the pipelines of a
  batch settle, \<^verbatim>\<open>processInBatches\<close> returns; the batches it launched are not empty,
  have at most \<open>C\<close> indices each, and are, one after the other, the indices of the
  input from 0 on (all of them unless a pipeline has thrown); and at every moment of
  the run, that is after every prefix of its launches and settlements, at most \<open>C\<close>
  pipelines, hence at most \<open>C\<close> requests, are in flight.
\<close>

theorem processInBatches_in_flight:
  assumes "1 \<le> C" "\<forall>b. mset (order b) = mset b"
  shows "\<exists>r launched s'.
      processInBatches items p C s = Some (r, launched, s')
      \<and> (\<forall>b\<in>set launched. b \<noteq> [] \<and> length b \<le> C)
      \<and> prefix (concat launched) [0..<length items]
      \<and> (\<not> isl r \<longrightarrow> concat launched = [0..<length items])
      \<and> (\<forall>es. prefix es (events order launched) \<longrightarrow> 0 \<le> in_flight es \<and> in_flight es \<le> int C)"
proof -
  obtain r0 l s' where bl: "batch_loop items p C 0 [] [] s = Some (r0, l, s')"
    using batch_loop_total[OF assms(1), of items p 0 "[]" "[]" s] by (metis prod_cases3)
  from batch_loop_launched[OF assms(1) bl] have l:
    "\<forall>b\<in>set l. b \<noteq> [] \<and> length b \<le> C" "prefix (concat l) [0..<length items]"
    "\<not> isl r0 \<longrightarrow> concat l = [0..<length items]" by auto
  have len: "length (order b) = length b" for b
    using assms(2) by (metis size_mset)
  have fl: "\<forall>es. prefix es (events order l) \<longrightarrow> 0 \<le> in_flight es \<and> in_flight es \<le> int C"
    using in_flight_events[of order l C] len l(1) by blast
  show ?thesis
  proof (cases r0)
    case (Inl e)
    then have "processInBatches items p C s = Some (Inl e, l, s')"
      using bl by (simp add: processInBatches_def)
    then show ?thesis using l fl Inl by simp
  next
    case (Inr results)
    then have "processInBatches items p C s = Some (Inr (List.map_filter (\<lambda>r. r) results), l, s')"
      using bl by (simp add: processInBatches_def)
    then show ?thesis using l fl Inr by simp
  qed
qed

theorem processInBatches_in_flight_witness:
  "mset (rev [0::nat, 1]) = mset [0, 1]
   \<and> map_option (\<lambda>(r, launched, s). launched)
        (processInBatches (map fst example_pages) (stateless (processUrl example_env no_options)) 2 ())
      = Some [[0, 1], [2, 3], [4]]
   \<and> events rev [[0, 1], [2, 3], [4]]
      = [Launch 0, Launch 1, Settle 1, Settle 0, Launch 2, Launch 3, Settle 3, Settle 2, Launch 4, Settle 4]
   \<and> in_flight [Launch 0, Launch 1, Settle 1, Settle 0, Launch 2, Launch 3] = 2"
proof -
  have "\<exists>r launched s'.
      processInBatches (map fst example_pages) (stateless (processUrl example_env no_options)) 2 ()
        = Some (r, launched, s')
      \<and> (\<forall>b\<in>set launched. b \<noteq> [] \<and> length b \<le> 2)
      \<and> prefix (concat launched) [0..<length (map fst example_pages)]
      \<and> (\<not> isl r \<longrightarrow> concat launched = [0..<length (map fst example_pages)])
      \<and> (\<forall>es. prefix es (events rev launched) \<longrightarrow> 0 \<le> in_flight es \<and> in_flight es \<le> int 2)"
    by (rule processInBatches_in_flight) simp_all
  moreover have "mset (rev [0::nat, 1]) = mset [0, 1]
   \<and> map_option (\<lambda>(r, launched, s). launched)
        (processInBatches (map fst example_pages) (stateless (processUrl example_env no_options)) 2 ())
      = Some [[0, 1], [2, 3], [4]]
   \<and> events rev [[0, 1], [2, 3], [4]]
      = [Launch 0, Launch 1, Settle 1, Settle 0, Launch 2, Launch 3, Settle 3, Settle 2, Launch 4, Settle 4]
   \<and> in_flight [Launch 0, Launch 1, Settle 1, Settle 0, Launch 2, Launch 3] = 2"
    by code_simp
  ultimately show ?thesis by fast
qed


section \<open>Errors of the per-URL pipeline\<close>

lemma substituteTitle_not_command: "\<not> prefix ''s/'' c \<Longrightarrow> substituteTitle E t c = Inr t"
  by (simp add: substituteTitle_def)

lemma substituteTitle_malformed:
  assumes "prefix ''s/'' c" "match_command c = None"
  shows "substituteTitle E t c = Inl InvalidSubstitutionCommand"
proof -
  from assms(1) have "c \<noteq> []" by auto
  then show ?thesis
    using assms by (simp add: substituteTitle_def parseSubstitutionCommand_def)
qed

lemma substituteTitle_error:
  "substituteTitle E t c = Inl e \<Longrightarrow> prefix ''s/'' c \<and> parseSubstitutionCommand E c = Inl e"
  by (auto simp: substituteTitle_def split: if_splits sum.splits)

lemma substituteAll_error:
  "substituteAll E t cs = Inl e \<Longrightarrow> \<exists>c\<in>set cs. prefix ''s/'' c \<and> parseSubstitutionCommand E c = Inl e"
proof (induction cs arbitrary: t)
  case Nil
  then show ?case by simp
next
  case (Cons c cs)
  show ?case
  proof (cases "substituteTitle E t c")
    case (Inl e')
    then have "e' = e" using Cons.prems by simp
    then show ?thesis using substituteTitle_error[of E t c e] Inl by simp
  next
    case (Inr t')
    then have "substituteAll E t' cs = Inl e" using Cons.prems by simp
    then show ?thesis using Cons.IH by auto
  qed
qed

lemma rewriteTitle_error:
  "rewriteTitle E cs t = Inl e \<Longrightarrow> \<exists>c\<in>set cs. prefix ''s/'' c \<and> parseSubstitutionCommand E c = Inl e"
  using substituteAll_error[of E t cs e] by (auto simp: rewriteTitle_def split: sum.splits)

lemma rewriteTitle_accepted:
  assumes "\<forall>c\<in>set cs. accepted E c"
  shows "\<exists>t'. rewriteTitle E cs t = Inr t'"
proof (cases "rewriteTitle E cs t")
  case (Inl e)
  then obtain c where "c \<in> set cs" "prefix ''s/'' c" "parseSubstitutionCommand E c = Inl e"
    using rewriteTitle_error by blast
  then show ?thesis using assms by (auto simp: accepted_def)
next
  case (Inr t')
  then show ?thesis by simp
qed

lemma processUrl_error:
  assumes "processUrl E opts u i = Inl e"
  shows "shouldProcess E opts u
    \<and> (\<exists>html t. fetchHtml E u = Some html \<and> html \<noteq> [] \<and> getTitle E html = Some t \<and> t \<noteq> []
          \<and> rewriteTitle E (opt_replaceTitle opts) t = Inl e)"
  using assms
  by (auto simp: processUrl_def shouldProcess_def split: if_splits option.splits sum.splits)

lemma processUrl_full_error:
  assumes "processUrl_full E opts lm u i st = (Inl e, st')"
  shows "st' = st \<and> ((\<exists>t. rewriteTitle E (opt_replaceTitle opts) t = Inl e)
            \<or> (e = TurndownError \<and> (\<exists>h. turndown E h = None)))"
proof -
  have skip_Inr: "skip st u r \<noteq> (Inl e, st')" for r
    by (simp add: skip_def)
  show ?thesis
  proof (cases "shouldProcess E opts u")
    case False
    then show ?thesis
      using assms skip_Inr by (auto simp: processUrl_full_def shouldProcess_def split: if_splits)
  next
    case True
    then have guards: "\<not> isExcluded E opts u" "\<not> (opt_includePath opts \<noteq> [] \<and> \<not> isIncluded E opts u)"
      by (auto simp: shouldProcess_def split: if_splits)
    show ?thesis
    proof (cases "fetchHtml E u")
      case None
      then show ?thesis using assms guards skip_Inr by (simp add: processUrl_full_def)
    next
      case (Some html)
      show ?thesis
      proof (cases "html = [] \<or> getTitle E html = None \<or> getTitle E html = Some []")
        case True
        then show ?thesis
          using assms guards Some skip_Inr
          by (auto simp: processUrl_full_def split: option.splits if_splits)
      next
        case False
        then obtain t where t: "html \<noteq> []" "getTitle E html = Some t" "t \<noteq> []" by auto
        then obtain doc where doc: "cheerio_load E html = Some doc"
          by (auto simp: getTitle_def split: option.splits)
        show ?thesis
        proof (cases "rewriteTitle E (opt_replaceTitle opts) t")
          case (Inl e')
          then show ?thesis
            using assms guards Some t by (auto simp: processUrl_full_def)
        next
          case (Inr t')
          then show ?thesis
            using assms guards Some t doc
            by (auto simp: processUrl_full_def split: option.splits)
        qed
      qed
    qed
  qed
qed

lemma processUrl_full_no_error:
  assumes "\<forall>c\<in>set (opt_replaceTitle opts). accepted E c" "\<forall>h. turndown E h \<noteq> None"
  shows "\<not> isl (fst (processUrl_full E opts lm u i st))"
proof
  assume "isl (fst (processUrl_full E opts lm u i st))"
  then obtain e st' where "processUrl_full E opts lm u i st = (Inl e, st')"
    by (metis isl_def prod.collapse)
  from processUrl_full_error[OF this] assms(2) obtain t where
    "rewriteTitle E (opt_replaceTitle opts) t = Inl e" by auto
  then show False using rewriteTitle_accepted[OF assms(1), of t] by simp
qed

lemma run_batch_no_error:
  assumes "\<And>x i s. \<not> isl (fst (p x i s))"
  shows "\<forall>r\<in>set (fst (run_batch p i xs s)). \<not> isl r"
proof (induction xs arbitrary: i s)
  case Nil
  then show ?case by simp
next
  case (Cons x xs)
  obtain r s1 where p: "p x i s = (r, s1)" by force
  obtain rs s2 where rb: "run_batch p (Suc i) xs s1 = (rs, s2)" by force
  have "\<not> isl r" using assms[of x i s] p by simp
  moreover have "\<forall>r\<in>set rs. \<not> isl r" using Cons[of "Suc i" s1] rb by simp
  ultimately show ?case using p rb by simp
qed

lemma processInBatches_no_error:
  assumes "1 \<le> C" "\<And>x i s. \<not> isl (fst (p x i s))"
  shows "\<exists>rs launched s'. processInBatches items p C s = Some (Inr rs, launched, s')"
proof -
  obtain outcomes s' where rb: "run_batch p 0 items s = (outcomes, s')" by force
  have "\<forall>r\<in>set outcomes. \<not> isl r"
    using run_batch_no_error[of p 0 items s] assms(2) rb by simp
  then have "promise_all outcomes = Inr (map projr outcomes)" by (rule promise_all_no_error)
  from processInBatches_ok[OF assms(1) rb this] show ?thesis by blast
qed

lemma processUrl_fetch_failed:
  assumes "shouldProcess E opts u" "fetchHtml E u = None \<or> fetchHtml E u = Some []"
  shows "processUrl E opts u i = Inr None \<and> processUrl_full E opts lm u i st = skip st u FetchFailed"
  using assms
  by (auto simp: shouldProcess_def processUrl_def processUrl_full_def split: if_splits)

lemma processUrl_no_title:
  assumes "shouldProcess E opts u" "fetchHtml E u = Some html" "html \<noteq> []"
    "getTitle E html = None \<or> getTitle E html = Some []"
  shows "processUrl E opts u i = Inr None \<and> processUrl_full E opts lm u i st = skip st u NoTitle"
  using assms
  by (auto simp: shouldProcess_def processUrl_def processUrl_full_def split: if_splits)

lemma promise_all_rejects: "\<exists>r\<in>set rs. isl r \<Longrightarrow> \<exists>e. promise_all rs = Inl e"
proof (induction rs)
  case Nil
  then show ?case by simp
next
  case (Cons r rs)
  show ?case
  proof (cases r)
    case (Inl e)
    then show ?thesis by simp
  next
    case (Inr v)
    then have "\<exists>r\<in>set rs. isl r" using Cons.prems by auto
    then obtain e where "promise_all rs = Inl e" using Cons.IH by blast
    then show ?thesis using Inr by simp
  qed
qed

lemma batch_loop_error:
  assumes "1 \<le> C"
  shows "run_batch p i (drop i items) s = (outcomes, s') \<Longrightarrow> promise_all outcomes = Inl e
    \<Longrightarrow> \<exists>l' s''. batch_loop items p C i res l s = Some (Inl e, l', s'')"
proof (induction "length items - i" arbitrary: i res l s outcomes s' rule: less_induct)
  case less
  show ?case
  proof (cases "i < length items")
    case False
    then have "outcomes = []" using less.prems by auto
    then show ?thesis using less.prems by simp
  next
    case True
    let ?batch = "slice items i (i + C)"
    obtain o1 s1 where rb: "run_batch p i ?batch s = (o1, s1)" by force
    obtain o2 s2 where rr: "run_batch p (i + C) (drop (i + C) items) s1 = (o2, s2)" by force
    have "run_batch p i (?batch @ drop (i + C) items) s = (o1 @ o2, s2)"
      by (simp add: run_batch_append rb run_batch_rest rr)
    then have eq: "outcomes = o1 @ o2"
      using less.prems(1) by (simp add: slice_chunk)
    show ?thesis
    proof (cases "promise_all o1")
      case (Inl e1)
      then have "e1 = e" using less.prems(2) eq by (simp add: promise_all_append)
      then show ?thesis
        using True rb Inl by (subst batch_loop.simps) (simp add: Let_def)
    next
      case (Inr va)
      then have o2: "promise_all o2 = Inl e"
        using less.prems(2) eq by (simp add: promise_all_append split: sum.splits)
      have "length items - (i + C) < length items - i" using True assms by simp
      from less.hyps[OF this rr o2, of "res @ va" "l @ [[i..<i + length ?batch]]"]
      show ?thesis
        using True rb Inr by (subst batch_loop.simps) (simp add: Let_def)
    qed
  qed
qed

lemma processInBatches_error:
  assumes "1 \<le> C" "\<exists>r\<in>set (fst (run_batch p 0 items s)). isl r"
  shows "\<exists>e launched s'. processInBatches items p C s = Some (Inl e, launched, s')"
proof -
  obtain outcomes s1 where rb: "run_batch p 0 items s = (outcomes, s1)" by force
  then obtain e where "promise_all outcomes = Inl e"
    using assms(2) promise_all_rejects[of outcomes] by auto
  from batch_loop_error[OF assms(1), of p 0 items s outcomes s1 e "[]" "[]"] rb this
  obtain l' s'' where "batch_loop items p C 0 [] [] s = Some (Inl e, l', s'')" by auto
  then show ?thesis by (simp add: processInBatches_def)
qed

text \<open>
  The claim C2 as the specification states it fails: a command that begins with
  \<^verbatim>\<open>s/\<close> and has no third slash makes \<^verbatim>\<open>parseSubstitutionCommand\<close> throw when the
  first page with a title is rewritten; nothing catches the error in \<^verbatim>\<open>processUrl\<close>
  or in \<^verbatim>\<open>processInBatches\<close>, and \<^verbatim>\<open>gen\<close> is left with no section at all, the
  pages of the sibling URLs included.
\<close>

theorem malformed_command_aborts_crawl:
  "processInBatches [''https://x.test/'', ''https://x.test/docs/a'']
     (stateless (processUrl example_env (no_options\<lparr>opt_replaceTitle := [''s/x'']\<rparr>))) 5 ()
   = Some (Inl InvalidSubstitutionCommand, [[0, 1]], ())
   \<and> gen_sections example_env (no_options\<lparr>opt_replaceTitle := [''s/x'']\<rparr>) ''https://x.test/sitemap.xml''
     = Some []"
  by code_simp

text \<open>
  C2, as the code has it. A URL that the filter rejects, a request that fails or
  returns an empty body, and a page without a title give \<^verbatim>\<open>null\<close> in the index mode
  and \<^verbatim>\<open>null\<close> with a skip record of the matching reason in the full mode, whatever
  the substitution commands are; none of them is thrown. Two failures are thrown by
  \<^verbatim>\<open>processUrl\<close>: a substitution command that begins with \<^verbatim>\<open>s/\<close> and that
  \<^verbatim>\<open>parseSubstitutionCommand\<close> rejects, and, in the full mode, an error of the
  converter; the full mode leaves its two arrays as they were for that URL. Such an
  error is not caught by \<^verbatim>\<open>processInBatches\<close>: for a concurrency of at least 1, a
  run in which the pipeline of some URL throws ends with an error thrown to the caller.
  When every command is accepted (and, in the full mode, the converter does not throw),
  no page throws, and \<^verbatim>\<open>processInBatches\<close> returns a result for every list of URLs
  and every concurrency of at least 1.
\<close>

theorem per_page_failures:
  "(\<not> shouldProcess E opts u \<longrightarrow>
      processUrl E opts u i = Inr None
      \<and> (processUrl_full E opts lm u i st = skip st u Excluded
          \<or> processUrl_full E opts lm u i st = skip st u NotIncluded))
   \<and> (shouldProcess E opts u \<and> (fetchHtml E u = None \<or> fetchHtml E u = Some []) \<longrightarrow>
        processUrl E opts u i = Inr None
        \<and> processUrl_full E opts lm u i st = skip st u FetchFailed)
   \<and> (shouldProcess E opts u \<and> fetchHtml E u = Some html \<and> html \<noteq> []
        \<and> (getTitle E html = None \<or> getTitle E html = Some []) \<longrightarrow>
        processUrl E opts u i = Inr None
        \<and> processUrl_full E opts lm u i st = skip st u NoTitle)
   \<and> (processUrl E opts u i = Inl e \<longrightarrow>
        (\<exists>c\<in>set (opt_replaceTitle opts). prefix ''s/'' c \<and> parseSubstitutionCommand E c = Inl e))
   \<and> (processUrl_full E opts lm u i st = (Inl e, st') \<longrightarrow>
        st' = st \<and>
        ((\<exists>c\<in>set (opt_replaceTitle opts). prefix ''s/'' c \<and> parseSubstitutionCommand E c = Inl e)
         \<or> (e = TurndownError \<and> (\<exists>h. turndown E h = None))))
   \<and> (1 \<le> C \<and> k < length sites \<and> processUrl E opts (sites ! k) k = Inl e \<longrightarrow>
        (\<exists>e' launched.
           processInBatches sites (stateless (processUrl E opts)) C () = Some (Inl e', launched, ())))
   \<and> (1 \<le> C \<and> (\<exists>r\<in>set (fst (run_batch (processUrl_full E opts lm) 0 sites st)). isl r) \<longrightarrow>
        (\<exists>e' launched st'.
           processInBatches sites (processUrl_full E opts lm) C st = Some (Inl e', launched, st')))
   \<and> ((\<forall>c\<in>set (opt_replaceTitle opts). accepted E c) \<and> 1 \<le> C \<longrightarrow>
        (\<exists>pages launched.
           processInBatches sites (stateless (processUrl E opts)) C () = Some (Inr pages, launched, ())))
   \<and> ((\<forall>c\<in>set (opt_replaceTitle opts). accepted E c) \<and> (\<forall>h. turndown E h \<noteq> None) \<and> 1 \<le> C \<longrightarrow>
        (\<exists>rs launched st'.
           processInBatches sites (processUrl_full E opts lm) C st = Some (Inr rs, launched, st')))"
proof (intro conjI impI)
  assume a: "\<not> shouldProcess E opts u"
  then show "processUrl E opts u i = Inr None"
    by (auto simp: shouldProcess_def processUrl_def split: if_splits)
  from a show "processUrl_full E opts lm u i st = skip st u Excluded
      \<or> processUrl_full E opts lm u i st = skip st u NotIncluded"
    by (rule filtered_is_skipped)
next
  assume a: "shouldProcess E opts u \<and> (fetchHtml E u = None \<or> fetchHtml E u = Some [])"
  then show "processUrl E opts u i = Inr None"
    using processUrl_fetch_failed by blast
  from a show "processUrl_full E opts lm u i st = skip st u FetchFailed"
    using processUrl_fetch_failed by blast
next
  assume a: "shouldProcess E opts u \<and> fetchHtml E u = Some html \<and> html \<noteq> []
        \<and> (getTitle E html = None \<or> getTitle E html = Some [])"
  then show "processUrl E opts u i = Inr None"
    using processUrl_no_title by blast
  from a show "processUrl_full E opts lm u i st = skip st u NoTitle"
    using processUrl_no_title by blast
next
  assume "processUrl E opts u i = Inl e"
  then show "\<exists>c\<in>set (opt_replaceTitle opts). prefix ''s/'' c \<and> parseSubstitutionCommand E c = Inl e"
    using processUrl_error rewriteTitle_error by blast
next
  assume a: "processUrl_full E opts lm u i st = (Inl e, st')"
  from processUrl_full_error[OF a] show "st' = st" by simp
  from processUrl_full_error[OF a]
  show "(\<exists>c\<in>set (opt_replaceTitle opts). prefix ''s/'' c \<and> parseSubstitutionCommand E c = Inl e)
         \<or> (e = TurndownError \<and> (\<exists>h. turndown E h = None))"
    using rewriteTitle_error by blast
next
  assume a: "1 \<le> C \<and> k < length sites \<and> processUrl E opts (sites ! k) k = Inl e"
  let ?outcomes = "map (\<lambda>j. processUrl E opts (sites ! j) j) [0..<length sites]"
  have "?outcomes ! k = Inl e" using a by simp
  then have "\<exists>r\<in>set ?outcomes. isl r"
    using a by (metis (no_types, lifting) isl_def length_map length_upt minus_nat.diff_0 nth_mem)
  then have "\<exists>r\<in>set (fst (run_batch (stateless (processUrl E opts)) 0 sites ())). isl r"
    by (simp add: run_batch_stateless_all)
  from processInBatches_error[of C "stateless (processUrl E opts)" sites "()", OF _ this] a
  show "\<exists>e' launched.
      processInBatches sites (stateless (processUrl E opts)) C () = Some (Inl e', launched, ())"
    by simp
next
  assume a: "1 \<le> C \<and> (\<exists>r\<in>set (fst (run_batch (processUrl_full E opts lm) 0 sites st)). isl r)"
  then have c: "1 \<le> C"
    and r: "\<exists>r\<in>set (fst (run_batch (processUrl_full E opts lm) 0 sites st)). isl r"
    by simp_all
  from processInBatches_error[OF c r]
  show "\<exists>e' launched st'.
      processInBatches sites (processUrl_full E opts lm) C st = Some (Inl e', launched, st')"
    by simp
next
  assume a: "(\<forall>c\<in>set (opt_replaceTitle opts). accepted E c) \<and> 1 \<le> C"
  have "\<not> isl (fst (stateless (processUrl E opts) x j s))" for x j and s :: unit
  proof
    assume "isl (fst (stateless (processUrl E opts) x j s))"
    then obtain e' where "processUrl E opts x j = Inl e'" by (auto simp: stateless_def isl_def)
    then obtain t where "rewriteTitle E (opt_replaceTitle opts) t = Inl e'"
      using processUrl_error by blast
    then show False using rewriteTitle_accepted[of "opt_replaceTitle opts" E t] a by simp
  qed
  from processInBatches_no_error[of C "stateless (processUrl E opts)" sites "()", OF _ this] a
  show "\<exists>pages launched.
      processInBatches sites (stateless (processUrl E opts)) C () = Some (Inr pages, launched, ())"
    by simp
next
  assume a: "(\<forall>c\<in>set (opt_replaceTitle opts). accepted E c) \<and> (\<forall>h. turndown E h \<noteq> None) \<and> 1 \<le> C"
  then have "\<not> isl (fst (processUrl_full E opts lm x j s))" for x j s
    using processUrl_full_no_error by blast
  from processInBatches_no_error[of C "processUrl_full E opts lm" sites st, OF _ this] a
  show "\<exists>rs launched st'.
      processInBatches sites (processUrl_full E opts lm) C st = Some (Inr rs, launched, st')"
    by simp
qed

theorem per_page_failures_witness:
  "\<not> shouldProcess example_env strict_options ''https://x.test/blog/c''
   \<and> processUrl example_env strict_options ''https://x.test/blog/c'' 0 = Inr None
   \<and> processUrl_full example_env strict_options no_lastmod ''https://x.test/blog/c'' 0 no_records
       = skip no_records ''https://x.test/blog/c'' Excluded
   \<and> shouldProcess example_env strict_options ''https://x.test/nowhere''
   \<and> fetchHtml example_env ''https://x.test/nowhere'' = None
   \<and> processUrl example_env strict_options ''https://x.test/nowhere'' 0 = Inr None
   \<and> processUrl_full example_env strict_options no_lastmod ''https://x.test/nowhere'' 0 no_records
       = skip no_records ''https://x.test/nowhere'' FetchFailed
   \<and> shouldProcess untitled_env strict_options ''https://x.test/''
   \<and> fetchHtml untitled_env ''https://x.test/'' = Some ''<html><body>no title</body></html>''
   \<and> getTitle untitled_env ''<html><body>no title</body></html>'' = Some []
   \<and> processUrl untitled_env strict_options ''https://x.test/'' 0 = Inr None
   \<and> processUrl_full untitled_env strict_options no_lastmod ''https://x.test/'' 0 no_records
       = skip no_records ''https://x.test/'' NoTitle
   \<and> processUrl example_env strict_options ''https://x.test/'' 1 = Inl InvalidSubstitutionCommand
   \<and> parseSubstitutionCommand example_env ''s/x'' = Inl InvalidSubstitutionCommand
   \<and> processUrl_full example_env strict_options no_lastmod ''https://x.test/'' 1 no_records
       = (Inl InvalidSubstitutionCommand, no_records)
   \<and> processInBatches [''https://x.test/nowhere'', ''https://x.test/'']
        (stateless (processUrl example_env strict_options)) 1 ()
       = Some (Inl InvalidSubstitutionCommand, [[0], [1]], ())
   \<and> processInBatches [''https://x.test/nowhere'', ''https://x.test/'']
        (processUrl_full example_env strict_options no_lastmod) 1 no_records
       = Some (Inl InvalidSubstitutionCommand, [[0], [1]],
               snd (skip no_records ''https://x.test/nowhere'' FetchFailed))
   \<and> list_all (accepted example_env) [''not-a-command'', ''s/Home/Start/'']
   \<and> (\<forall>h. turndown example_env h \<noteq> None)
   \<and> processInBatches [''https://x.test/nowhere'', ''https://x.test/'']
        (stateless (processUrl example_env
           (no_options\<lparr>opt_replaceTitle := [''not-a-command'', ''s/Home/Start/'']\<rparr>))) 1 ()
      = Some (Inr [\<lparr>title = ''Start'', url = ''https://x.test/'', description = Undefined, sect = ''ROOT''\<rparr>],
              [[0], [1]], ())
   \<and> map_option fst (processInBatches [''https://x.test/nowhere'', ''https://x.test/'']
        (processUrl_full example_env
           (no_options\<lparr>opt_replaceTitle := [''not-a-command'', ''s/Home/Start/'']\<rparr>) no_lastmod) 1 no_records)
      = Some (Inr [True])"
proof -
  have run: "processUrl example_env strict_options ''https://x.test/'' 1 = Inl InvalidSubstitutionCommand"
    by code_simp
  from per_page_failures[where E = example_env and opts = strict_options and u = "''https://x.test/''"
      and i = 1 and e = InvalidSubstitutionCommand]
  have "processUrl example_env strict_options ''https://x.test/'' 1 = Inl InvalidSubstitutionCommand \<longrightarrow>
      (\<exists>c\<in>set (opt_replaceTitle strict_options).
          prefix ''s/'' c \<and> parseSubstitutionCommand example_env c = Inl InvalidSubstitutionCommand)"
    by blast
  with run have cause: "parseSubstitutionCommand example_env ''s/x'' = Inl InvalidSubstitutionCommand"
    by (simp add: strict_options_def)
  have td: "\<forall>h. turndown example_env h \<noteq> None" by (simp add: example_env_def)
  have rest: "\<not> shouldProcess example_env strict_options ''https://x.test/blog/c''
   \<and> processUrl example_env strict_options ''https://x.test/blog/c'' 0 = Inr None
   \<and> processUrl_full example_env strict_options no_lastmod ''https://x.test/blog/c'' 0 no_records
       = skip no_records ''https://x.test/blog/c'' Excluded
   \<and> shouldProcess example_env strict_options ''https://x.test/nowhere''
   \<and> fetchHtml example_env ''https://x.test/nowhere'' = None
   \<and> processUrl example_env strict_options ''https://x.test/nowhere'' 0 = Inr None
   \<and> processUrl_full example_env strict_options no_lastmod ''https://x.test/nowhere'' 0 no_records
       = skip no_records ''https://x.test/nowhere'' FetchFailed
   \<and> shouldProcess untitled_env strict_options ''https://x.test/''
   \<and> fetchHtml untitled_env ''https://x.test/'' = Some ''<html><body>no title</body></html>''
   \<and> getTitle untitled_env ''<html><body>no title</body></html>'' = Some []
   \<and> processUrl untitled_env strict_options ''https://x.test/'' 0 = Inr None
   \<and> processUrl_full untitled_env strict_options no_lastmod ''https://x.test/'' 0 no_records
       = skip no_records ''https://x.test/'' NoTitle
   \<and> processUrl_full example_env strict_options no_lastmod ''https://x.test/'' 1 no_records
       = (Inl InvalidSubstitutionCommand, no_records)
   \<and> processInBatches [''https://x.test/nowhere'', ''https://x.test/'']
        (stateless (processUrl example_env strict_options)) 1 ()
       = Some (Inl InvalidSubstitutionCommand, [[0], [1]], ())
   \<and> processInBatches [''https://x.test/nowhere'', ''https://x.test/'']
        (processUrl_full example_env strict_options no_lastmod) 1 no_records
       = Some (Inl InvalidSubstitutionCommand, [[0], [1]],
               snd (skip no_records ''https://x.test/nowhere'' FetchFailed))
   \<and> list_all (accepted example_env) [''not-a-command'', ''s/Home/Start/'']
   \<and> processInBatches [''https://x.test/nowhere'', ''https://x.test/'']
        (stateless (processUrl example_env
           (no_options\<lparr>opt_replaceTitle := [''not-a-command'', ''s/Home/Start/'']\<rparr>))) 1 ()
      = Some (Inr [\<lparr>title = ''Start'', url = ''https://x.test/'', description = Undefined, sect = ''ROOT''\<rparr>],
              [[0], [1]], ())
   \<and> map_option fst (processInBatches [''https://x.test/nowhere'', ''https://x.test/'']
        (processUrl_full example_env
           (no_options\<lparr>opt_replaceTitle := [''not-a-command'', ''s/Home/Start/'']\<rparr>) no_lastmod) 1 no_records)
      = Some (Inr [True])"
    by code_simp
  from run cause td rest show ?thesis by simp
qed

lemma processUrl_no_fetch: "fetchHtml E u = None \<Longrightarrow> processUrl E opts u i = Inr None"
  by (simp add: processUrl_def)

lemma map_filter_all_None: "\<forall>x\<in>set xs. h x = None \<Longrightarrow> List.map_filter h xs = []"
  by (induction xs) (simp_all add: List.map_filter_def)

text \<open>
  The claim C3 as the specification states it fails: the command \<^verbatim>\<open>not-a-command\<close>
  does not begin with \<^verbatim>\<open>s/\<close>, \<^verbatim>\<open>substituteTitle\<close> returns the title as it is, and
  the page is fetched and listed; no error is raised at any time.
\<close>

theorem not_a_command_is_ignored:
  "substituteTitle example_env ''Home'' ''not-a-command'' = Inr ''Home''
   \<and> processUrl example_env (no_options\<lparr>opt_replaceTitle := [''not-a-command'']\<rparr>) ''https://x.test/'' 0
      = Inr (Some \<lparr>title = ''Home'', url = ''https://x.test/'', description = Undefined, sect = ''ROOT''\<rparr>)"
  by code_simp

text \<open>
  C3, as the code has it. A command that does not begin with \<^verbatim>\<open>s/\<close> raises nothing:
  the title is returned unchanged. A command that begins with \<^verbatim>\<open>s/\<close> and does not
  match the shape raises the error each time it is applied to a title. That happens
  inside \<^verbatim>\<open>processUrl\<close>, for a URL that has passed the filter and whose page has been
  fetched and has a title, not when the options are read: when no page can be fetched,
  the crawl ends without an error, whatever the commands are.
\<close>

theorem malformed_command_raised_at_rewriting:
  "(\<not> prefix ''s/'' c \<longrightarrow> substituteTitle E t c = Inr t)
   \<and> (prefix ''s/'' c \<and> match_command c = None \<longrightarrow>
        substituteTitle E t c = Inl InvalidSubstitutionCommand)
   \<and> (processUrl E opts u i = Inl e \<longrightarrow>
        shouldProcess E opts u
        \<and> (\<exists>html t'. fetchHtml E u = Some html \<and> html \<noteq> [] \<and> getTitle E html = Some t' \<and> t' \<noteq> []))
   \<and> ((\<forall>u\<in>set sites. fetchHtml E u = None) \<and> 1 \<le> C \<longrightarrow>
        (\<exists>launched.
           processInBatches sites (stateless (processUrl E opts)) C () = Some (Inr [], launched, ())))"
proof (intro conjI impI)
  assume "\<not> prefix ''s/'' c"
  then show "substituteTitle E t c = Inr t" by (rule substituteTitle_not_command)
next
  assume "prefix ''s/'' c \<and> match_command c = None"
  then show "substituteTitle E t c = Inl InvalidSubstitutionCommand"
    using substituteTitle_malformed by blast
next
  assume a: "processUrl E opts u i = Inl e"
  from processUrl_error[OF a] show "shouldProcess E opts u" by simp
  from processUrl_error[OF a]
  show "\<exists>html t'. fetchHtml E u = Some html \<and> html \<noteq> [] \<and> getTitle E html = Some t' \<and> t' \<noteq> []"
    by blast
next
  assume a: "(\<forall>u\<in>set sites. fetchHtml E u = None) \<and> 1 \<le> C"
  then have none: "\<forall>i<length sites. processUrl E opts (sites ! i) i = Inr None"
    using processUrl_no_fetch by (metis nth_mem)
  then have "\<forall>i<length sites. \<not> isl (processUrl E opts (sites ! i) i)" by simp
  from processInBatches_stateless[of C sites "processUrl E opts" "()", OF _ this] a
  obtain launched where
    "processInBatches sites (stateless (processUrl E opts)) C () =
       Some (Inr (List.map_filter (\<lambda>i. projr (processUrl E opts (sites ! i) i)) [0..<length sites]),
             launched, ())" by auto
  moreover have "List.map_filter (\<lambda>i. projr (processUrl E opts (sites ! i) i)) [0..<length sites] = []"
    using none by (intro map_filter_all_None) simp
  ultimately show "\<exists>launched.
      processInBatches sites (stateless (processUrl E opts)) C () = Some (Inr [], launched, ())"
    by simp
qed

theorem malformed_command_raised_at_rewriting_witness:
  "match_command ''s/x'' = None
   \<and> substituteTitle example_env ''Home'' ''s/x'' = Inl InvalidSubstitutionCommand
   \<and> substituteTitle example_env ''Home'' ''x/s'' = Inr ''Home''
   \<and> fetchHtml example_env ''https://x.test/nowhere'' = None
   \<and> processInBatches [''https://x.test/nowhere'']
        (stateless (processUrl example_env (no_options\<lparr>opt_replaceTitle := [''s/x'']\<rparr>))) 1 ()
      = Some (Inr [], [[0]], ())
   \<and> processUrl example_env (no_options\<lparr>opt_replaceTitle := [''s/x'']\<rparr>) ''https://x.test/'' 0
      = Inl InvalidSubstitutionCommand
   \<and> fetchHtml example_env ''https://x.test/'' = Some ''<html><head><title>Home</title></head></html>''"
proof -
  have m: "prefix ''s/'' ''s/x'' \<and> match_command ''s/x'' = None" by code_simp
  from malformed_command_raised_at_rewriting[of "''s/x''" example_env "''Home''"
      "no_options\<lparr>opt_replaceTitle := [''s/x'']\<rparr>" "''https://x.test/''" 0 InvalidSubstitutionCommand
      "[''https://x.test/nowhere'']" 1]
  have "prefix ''s/'' ''s/x'' \<and> match_command ''s/x'' = None \<longrightarrow>
        substituteTitle example_env ''Home'' ''s/x'' = Inl InvalidSubstitutionCommand"
    by blast
  with m have "substituteTitle example_env ''Home'' ''s/x'' = Inl InvalidSubstitutionCommand"
    by blast
  moreover have "match_command ''s/x'' = None
   \<and> substituteTitle example_env ''Home'' ''x/s'' = Inr ''Home''
   \<and> fetchHtml example_env ''https://x.test/nowhere'' = None
   \<and> processInBatches [''https://x.test/nowhere'']
        (stateless (processUrl example_env (no_options\<lparr>opt_replaceTitle := [''s/x'']\<rparr>))) 1 ()
      = Some (Inr [], [[0]], ())
   \<and> processUrl example_env (no_options\<lparr>opt_replaceTitle := [''s/x'']\<rparr>) ''https://x.test/'' 0
      = Inl InvalidSubstitutionCommand
   \<and> fetchHtml example_env ''https://x.test/'' = Some ''<html><head><title>Home</title></head></html>''"
    by code_simp
  ultimately show ?thesis by simp
qed

section \<open>Every URL is accounted for\<close>

lemma promise_all_Inr: "promise_all rs = Inr vs \<Longrightarrow> rs = map Inr vs"
proof (induction rs arbitrary: vs)
  case Nil
  then show ?case by simp
next
  case (Cons r rs)
  then show ?case by (cases r) (auto split: sum.splits)
qed

lemma batch_loop_Inr_run:
  assumes "1 \<le> C"
  shows "batch_loop items p C i res l s = Some (Inr results, l', s') \<Longrightarrow>
    \<exists>outcomes vs. run_batch p i (drop i items) s = (outcomes, s') \<and> promise_all outcomes = Inr vs
       \<and> results = res @ vs"
proof (induction "length items - i" arbitrary: i res l s rule: less_induct)
  case less
  show ?case
  proof (cases "i < length items")
    case False
    then have "results = res" "s' = s"
      using less.prems by (subst (asm) batch_loop.simps, simp)+
    then show ?thesis using False by simp
  next
    case True
    let ?batch = "slice items i (i + C)"
    obtain o1 s1 where rb: "run_batch p i ?batch s = (o1, s1)" by force
    show ?thesis
    proof (cases "promise_all o1")
      case (Inl e)
      then have False
        using less.prems True rb by (subst (asm) batch_loop.simps) (simp add: Let_def)
      then show ?thesis ..
    next
      case (Inr va)
      have rec: "batch_loop items p C (i + C) (res @ va) (l @ [[i..<i + length ?batch]]) s1
          = Some (Inr results, l', s')"
        using less.prems True rb Inr by (subst (asm) batch_loop.simps) (simp add: Let_def)
      have "length items - (i + C) < length items - i" using True assms by simp
      from less.hyps[OF this rec] obtain o2 vb where o2:
        "run_batch p (i + C) (drop (i + C) items) s1 = (o2, s')" "promise_all o2 = Inr vb"
        "results = (res @ va) @ vb" by blast
      have "run_batch p i (?batch @ drop (i + C) items) s = (o1 @ o2, s')"
        by (simp add: run_batch_append rb run_batch_rest o2(1))
      then have "run_batch p i (drop i items) s = (o1 @ o2, s')" by (simp add: slice_chunk)
      moreover have "promise_all (o1 @ o2) = Inr (va @ vb)"
        using Inr o2(2) by (simp add: promise_all_append)
      ultimately show ?thesis using o2(3) by simp
    qed
  qed
qed

lemma processInBatches_Inr_run:
  assumes "1 \<le> C" "processInBatches items p C s = Some (Inr rs, launched, s')"
  shows "\<exists>vs. run_batch p 0 items s = (map Inr vs, s') \<and> rs = List.map_filter (\<lambda>r. r) vs"
proof -
  from assms(2) obtain results where
    bl: "batch_loop items p C 0 [] [] s = Some (Inr results, launched, s')"
    and rs: "rs = List.map_filter (\<lambda>r. r) results"
    by (auto simp: processInBatches_def split: option.splits sum.splits)
  from batch_loop_Inr_run[OF assms(1) bl] obtain outcomes vs where
    "run_batch p 0 items s = (outcomes, s')" "promise_all outcomes = Inr vs" "results = vs"
    by auto
  then show ?thesis using rs promise_all_Inr by blast
qed

lemma concurrency_of_pos: "1 \<le> concurrency_of opts"
  by (simp add: concurrency_of_def split: option.splits)

lemma processUrl_full_accounts:
  assumes "processUrl_full E opts lm u i st = (Inr r, st')"
  shows "(r = None \<and> pageInfos st' = pageInfos st
           \<and> (\<exists>why. skipped st' = skipped st @ [\<lparr>skip_url = u, reason = why\<rparr>]))
       \<or> (r \<noteq> None \<and> skipped st' = skipped st
           \<and> (\<exists>info. pageInfos st' = pageInfos st @ [info] \<and> info_url info = u))"
  using assms
  by (auto simp: processUrl_full_def skip_def split: if_splits option.splits sum.splits)

lemma run_batch_full_accounts:
  assumes "run_batch (processUrl_full E opts lm) i xs st = (map Inr vs, st')"
  shows "mset (map info_url (pageInfos st')) + mset (map skip_url (skipped st'))
           = mset (map info_url (pageInfos st)) + mset (map skip_url (skipped st)) + mset xs
         \<and> length (pageInfos st') = length (pageInfos st) + length (List.map_filter (\<lambda>r. r) vs)
         \<and> length (skipped st') = length (skipped st) + length (filter (\<lambda>v. v = None) vs)"
  using assms
proof (induction xs arbitrary: i st vs)
  case Nil
  then show ?case by (simp add: List.map_filter_def)
next
  case (Cons x xs)
  obtain r s1 where p: "processUrl_full E opts lm x i st = (r, s1)" by force
  obtain rs s2 where rb: "run_batch (processUrl_full E opts lm) (Suc i) xs s1 = (rs, s2)" by force
  from Cons.prems p rb have eq: "r # rs = map Inr vs" "s2 = st'" by simp_all
  then obtain v vs' where vs: "vs = v # vs'" "r = Inr v" "rs = map Inr vs'" by (cases vs) auto
  from Cons.IH[of "Suc i" s1 vs'] rb vs eq have ih:
    "mset (map info_url (pageInfos st')) + mset (map skip_url (skipped st'))
       = mset (map info_url (pageInfos s1)) + mset (map skip_url (skipped s1)) + mset xs"
    "length (pageInfos st') = length (pageInfos s1) + length (List.map_filter (\<lambda>r. r) vs')"
    "length (skipped st') = length (skipped s1) + length (filter (\<lambda>v. v = None) vs')"
    by simp_all
  from processUrl_full_accounts[of E opts lm x i st v s1] p vs
  consider "v = None" "pageInfos s1 = pageInfos st"
      "\<exists>why. skipped s1 = skipped st @ [\<lparr>skip_url = x, reason = why\<rparr>]"
    | "v \<noteq> None" "skipped s1 = skipped st"
      "\<exists>info. pageInfos s1 = pageInfos st @ [info] \<and> info_url info = x"
    by auto
  then show ?case
  proof cases
    case 1
    then show ?thesis using ih vs by (auto simp: List.map_filter_def)
  next
    case 2
    then show ?thesis using ih vs by (auto simp: List.map_filter_def)
  qed
qed

text \<open>
  The claim C4 as the specification states it fails: with a command that
  \<^verbatim>\<open>parseSubstitutionCommand\<close> rejects, the crawl of the full mode throws at the first
  page with a title, and that URL has neither a page nor a skip record.
\<close>

theorem thrown_url_unaccounted:
  "crawl_full example_env (no_options\<lparr>opt_replaceTitle := [''s/x'']\<rparr>) no_lastmod [''https://x.test/'']
   = Some (Inl InvalidSubstitutionCommand, [[0]], \<lparr>skipped = [], pageInfos = []\<rparr>)"
  by code_simp

text \<open>
  C4, as the code has it. When the crawl of the full mode returns without an error, the
  URLs of the pages and the URLs of the skip records are together the URLs of the
  input, each as often as the input lists it: every URL has a page or a skip record and
  not both, and the two counts add up to the length of the input. The index mode makes
  no skip record; there a URL has a page or the \<^verbatim>\<open>null\<close> result, and the pages and the
  \<^verbatim>\<open>null\<close> results add up to the length of the input. A URL whose pipeline throws
  has neither a page nor a skip record.
\<close>

theorem every_url_accounted:
  "(crawl_full E opts lm sites = Some (Inr rs, launched, st) \<longrightarrow>
      mset (map info_url (pageInfos st)) + mset (map skip_url (skipped st)) = mset sites
      \<and> length (pageInfos st) + length (skipped st) = length sites
      \<and> length rs = length (pageInfos st))
   \<and> (crawl E opts sites = Some (Inr pages, launched', ()) \<longrightarrow>
        length pages
          + length (filter (\<lambda>i. processUrl E opts (sites ! i) i = Inr None) [0..<length sites])
        = length sites)
   \<and> (processUrl_full E opts lm u i st0 = (Inl e, st1) \<longrightarrow>
        pageInfos st1 = pageInfos st0 \<and> skipped st1 = skipped st0)"
proof (intro conjI impI)
  assume "processUrl_full E opts lm u i st0 = (Inl e, st1)"
  from processUrl_full_error[OF this] have "st1 = st0" by simp
  then show "pageInfos st1 = pageInfos st0" "skipped st1 = skipped st0" by simp_all
next
  assume a: "crawl_full E opts lm sites = Some (Inr rs, launched, st)"
  then have pb: "processInBatches sites (processUrl_full E opts lm) (concurrency_of opts)
      \<lparr>skipped = [], pageInfos = []\<rparr> = Some (Inr rs, launched, st)"
    by (simp add: crawl_full_def)
  from processInBatches_Inr_run[OF concurrency_of_pos pb] obtain vs where
    rb: "run_batch (processUrl_full E opts lm) 0 sites \<lparr>skipped = [], pageInfos = []\<rparr> = (map Inr vs, st)"
    and rs: "rs = List.map_filter (\<lambda>r. r) vs"
    by blast
  from run_batch_full_accounts[OF rb] have acc:
    "mset (map info_url (pageInfos st)) + mset (map skip_url (skipped st)) = mset sites"
    "length (pageInfos st) = length (List.map_filter (\<lambda>r. r) vs)"
    "length (skipped st) = length (filter (\<lambda>v. v = None) vs)"
    by simp_all
  have "length vs = length sites" using run_batch_length[OF rb] by simp
  moreover have "length (List.map_filter (\<lambda>r. r) vs) + length (filter (\<lambda>v. v = None) vs) = length vs"
    using sum_length_filter_compl[of "\<lambda>v. v \<noteq> None" vs] by (simp add: List.map_filter_def)
  ultimately show "mset (map info_url (pageInfos st)) + mset (map skip_url (skipped st)) = mset sites"
    "length (pageInfos st) + length (skipped st) = length sites"
    "length rs = length (pageInfos st)"
    using acc rs by simp_all
next
  assume a: "crawl E opts sites = Some (Inr pages, launched', ())"
  let ?f = "\<lambda>i. processUrl E opts (sites ! i) i"
  from a have pb: "processInBatches sites (stateless (processUrl E opts)) (concurrency_of opts) ()
      = Some (Inr pages, launched', ())"
    by (simp add: crawl_def)
  from processInBatches_Inr_run[OF concurrency_of_pos pb] obtain vs where
    rb: "run_batch (stateless (processUrl E opts)) 0 sites () = (map Inr vs, ())"
    and pages: "pages = List.map_filter (\<lambda>r. r) vs"
    by blast
  from rb have out: "map ?f [0..<length sites] = map Inr vs"
    by (simp add: run_batch_stateless_all)
  then have len: "length vs = length sites" by (metis length_map length_upt minus_nat.diff_0)
  have "?f i = Inr (vs ! i)" if "i < length sites" for i
    using out that len by (metis (no_types, lifting) add_0 length_map nth_map nth_upt)
  then have "filter (\<lambda>i. ?f i = Inr None) [0..<length sites]
      = filter (\<lambda>i. vs ! i = None) [0..<length sites]"
    by (intro filter_cong) auto
  moreover have "length (filter (\<lambda>i. vs ! i = None) [0..<length vs]) = length (filter (\<lambda>v. v = None) vs)"
    using length_filter_map[of "\<lambda>v. v = None" "\<lambda>i. vs ! i" "[0..<length vs]"]
    by (simp add: map_nth comp_def)
  moreover have "length (List.map_filter (\<lambda>r. r) vs) + length (filter (\<lambda>v. v = None) vs) = length vs"
    using sum_length_filter_compl[of "\<lambda>v. v \<noteq> None" vs] by (simp add: List.map_filter_def)
  ultimately show "length pages
      + length (filter (\<lambda>i. processUrl E opts (sites ! i) i = Inr None) [0..<length sites])
      = length sites"
    using pages len by simp
qed

theorem every_url_accounted_witness:
  "crawl_full example_env (no_options\<lparr>opt_excludePath := [''https://x.test/blog/**'']\<rparr>) no_lastmod
     [''https://x.test/blog/c'', ''https://x.test/docs/b'', ''https://x.test/nowhere'']
   = Some (Inr [True], [[0, 1, 2]],
       \<lparr>skipped = [\<lparr>skip_url = ''https://x.test/blog/c'', reason = Excluded\<rparr>,
                   \<lparr>skip_url = ''https://x.test/nowhere'', reason = FetchFailed\<rparr>],
        pageInfos = [\<lparr>info_title = ''B'', info_url = ''https://x.test/docs/b'',
                      info_description = Undefined,
                      markdown = ''<html><head><title>B</title></head></html>'',
                      anchor = ''b'', lastmod = None\<rparr>]\<rparr>)
   \<and> crawl example_env no_options [''https://x.test/nowhere'', ''https://x.test/docs/b'']
     = Some (Inr [\<lparr>title = ''B'', url = ''https://x.test/docs/b'', description = Undefined, sect = ''docs''\<rparr>],
             [[0, 1]], ())
   \<and> processUrl_full example_env strict_options no_lastmod ''https://x.test/'' 0 no_records
     = (Inl InvalidSubstitutionCommand, no_records)"
proof -
  note every_url_accounted[where E = example_env
      and opts = "no_options\<lparr>opt_excludePath := [''https://x.test/blog/**'']\<rparr>"
      and lm = no_lastmod
      and sites = "[''https://x.test/blog/c'', ''https://x.test/docs/b'', ''https://x.test/nowhere'']"
      and rs = "[True]" and launched = "[[0, 1, 2]]"]
  moreover have "crawl_full example_env (no_options\<lparr>opt_excludePath := [''https://x.test/blog/**'']\<rparr>) no_lastmod
     [''https://x.test/blog/c'', ''https://x.test/docs/b'', ''https://x.test/nowhere'']
   = Some (Inr [True], [[0, 1, 2]],
       \<lparr>skipped = [\<lparr>skip_url = ''https://x.test/blog/c'', reason = Excluded\<rparr>,
                   \<lparr>skip_url = ''https://x.test/nowhere'', reason = FetchFailed\<rparr>],
        pageInfos = [\<lparr>info_title = ''B'', info_url = ''https://x.test/docs/b'',
                      info_description = Undefined,
                      markdown = ''<html><head><title>B</title></head></html>'',
                      anchor = ''b'', lastmod = None\<rparr>]\<rparr>)
   \<and> crawl example_env no_options [''https://x.test/nowhere'', ''https://x.test/docs/b'']
     = Some (Inr [\<lparr>title = ''B'', url = ''https://x.test/docs/b'', description = Undefined, sect = ''docs''\<rparr>],
             [[0, 1]], ())
   \<and> processUrl_full example_env strict_options no_lastmod ''https://x.test/'' 0 no_records
     = (Inl InvalidSubstitutionCommand, no_records)"
    by code_simp
  ultimately show ?thesis by fast
qed


section \<open>Properties of the aggregator\<close>

lemma first_seen_snoc:
  "first_seen (xs @ [x]) = (if x \<in> set (first_seen xs) then first_seen xs else first_seen xs @ [x])"
  by (simp add: first_seen_def)

lemma set_first_seen: "set (first_seen xs) = set xs"
  by (induction xs rule: rev_induct) (auto simp: first_seen_snoc, simp add: first_seen_def)

lemma distinct_first_seen: "distinct (first_seen xs)"
  by (induction xs rule: rev_induct) (simp add: first_seen_def, simp add: first_seen_snoc)

lemma first_seen_filter: "first_seen (filter P xs) = filter P (first_seen xs)"
  by (induction xs rule: rev_induct) (simp_all add: first_seen_snoc set_first_seen)

lemma filter_absent_key: "k \<notin> set (map f xs) \<Longrightarrow> filter (\<lambda>x. f x = k) xs = []"
  by (induction xs) auto

lemma push_line_new:
  "k \<notin> set ks \<Longrightarrow> push_line k l (map (\<lambda>k'. (k', g k')) ks) = map (\<lambda>k'. (k', g k')) ks @ [(k, [l])]"
  by (induction ks) auto

lemma push_line_existing:
  "distinct ks \<Longrightarrow> k \<in> set ks \<Longrightarrow>
     push_line k l (map (\<lambda>k'. (k', g k')) ks)
       = map (\<lambda>k'. (k', if k' = k then g k' @ [l] else g k')) ks"
proof (induction ks)
  case Nil
  then show ?case by simp
next
  case (Cons a ks)
  show ?case
  proof (cases "a = k")
    case True
    then have "k \<notin> set ks" using Cons.prems(1) by simp
    then have "map (\<lambda>k'. (k', if k' = k then g k' @ [l] else g k')) ks = map (\<lambda>k'. (k', g k')) ks"
      by (intro map_cong) auto
    then show ?thesis using True by simp
  next
    case False
    then show ?thesis using Cons by simp
  qed
qed

lemma grouped_snoc: "grouped (rs @ [r]) = push_line (sect r) (line_of r) (grouped rs)"
proof (cases "sect r \<in> set (map sect rs)")
  case True
  then have fs: "first_seen (map sect (rs @ [r])) = first_seen (map sect rs)"
    by (simp add: first_seen_snoc set_first_seen)
  have "push_line (sect r) (line_of r) (grouped rs)
      = map (\<lambda>k'. (k', if k' = sect r then map line_of (filter (\<lambda>x. sect x = k') rs) @ [line_of r]
                        else map line_of (filter (\<lambda>x. sect x = k') rs)))
          (first_seen (map sect rs))"
    unfolding grouped_def using True
    by (intro push_line_existing) (simp_all add: distinct_first_seen set_first_seen)
  also have "\<dots> = grouped (rs @ [r])"
    unfolding grouped_def fs by (intro map_cong) auto
  finally show ?thesis by simp
next
  case False
  then have fs: "first_seen (map sect (rs @ [r])) = first_seen (map sect rs) @ [sect r]"
    by (simp add: first_seen_snoc set_first_seen)
  have none: "filter (\<lambda>x. sect x = sect r) rs = []"
    using False by (rule filter_absent_key)
  have "push_line (sect r) (line_of r) (grouped rs)
      = map (\<lambda>k'. (k', map line_of (filter (\<lambda>x. sect x = k') rs))) (first_seen (map sect rs))
        @ [(sect r, [line_of r])]"
    unfolding grouped_def using False by (intro push_line_new) (simp add: set_first_seen)
  also have "\<dots> = grouped (rs @ [r])"
  proof -
    have "map (\<lambda>k'. (k', map line_of (filter (\<lambda>x. sect x = k') (rs @ [r])))) (first_seen (map sect rs))
        = map (\<lambda>k'. (k', map line_of (filter (\<lambda>x. sect x = k') rs))) (first_seen (map sect rs))"
      using False by (intro map_cong) (auto simp: set_first_seen)
    then show ?thesis unfolding grouped_def fs by (simp add: none)
  qed
  finally show ?thesis by simp
qed

lemma map_of_keyed: "map_of (map (\<lambda>k. (k, g k)) ks) k = (if k \<in> set ks then Some (g k) else None)"
  by (induction ks) auto

lemma organize_grouped:
  assumes "\<forall>r\<in>set rs. sect r \<notin> set Object_prototype_keys"
  shows "organize rs (grouped seen) = grouped (seen @ rs)"
  using assms
proof (induction rs arbitrary: seen)
  case Nil
  then show ?case by simp
next
  case (Cons r rs)
  have "add_result (grouped seen) r = Some (grouped (seen @ [r]))"
    using Cons.prems by (simp add: add_result_def grouped_snoc line_of_def)
  then show ?case using Cons.IH[of "seen @ [r]"] Cons.prems by simp
qed

lemma organize_all:
  assumes "\<forall>r\<in>set rs. sect r \<notin> set Object_prototype_keys"
  shows "organize rs [] = grouped rs"
proof -
  have "grouped [] = []" by (simp add: grouped_def first_seen_def)
  then show ?thesis using organize_grouped[OF assms, of "[]"] by simp
qed

lemma map_insort_key: "map h (insort_key (\<lambda>x. f (h x)) x xs) = insort_key f (h x) (map h xs)"
  by (induction xs) auto

lemma map_sort_key: "map h (sort_key (\<lambda>x. f (h x)) xs) = sort_key f (map h xs)"
  by (induction xs) (simp_all add: map_insort_key)

lemma keys_for_in: "map fst (for_in secs) = index_keys_first (map fst secs)"
proof -
  have 1: "(\<lambda>(k, ls). numeric_value k) = (\<lambda>x. numeric_value (fst x))" by auto
  have 2: "(\<lambda>(k, ls). is_array_index k) = (\<lambda>x. is_array_index (fst x))" by auto
  have 3: "(\<lambda>(k, ls). \<not> is_array_index k) = (\<lambda>x. \<not> is_array_index (fst x))" by auto
  show ?thesis
    unfolding for_in_def index_keys_first_def 1 2 3
    by (simp add: map_sort_key filter_map comp_def)
qed

lemma set_for_in: "set (for_in secs) = set secs"
  by (auto simp: for_in_def)

lemma index_keys_first_none: "\<forall>k\<in>set ks. \<not> is_array_index k \<Longrightarrow> index_keys_first ks = ks"
proof -
  assume a: "\<forall>k\<in>set ks. \<not> is_array_index k"
  then have "filter is_array_index ks = []" by (simp add: filter_empty_conv)
  moreover have "filter (\<lambda>k. \<not> is_array_index k) ks = ks" using a by simp
  ultimately show ?thesis by (simp add: index_keys_first_def)
qed

lemma keys_without_root:
  "map fst (filter (\<lambda>(k, ls). k \<noteq> ''ROOT'') (grouped rs))
     = first_seen (filter (\<lambda>k. k \<noteq> ''ROOT'') (map sect rs))"
proof -
  have "map fst (filter (\<lambda>(k, ls). k \<noteq> ''ROOT'') (grouped rs))
      = filter (\<lambda>k. k \<noteq> ''ROOT'') (map fst (grouped rs))"
    by (simp add: filter_map comp_def case_prod_unfold)
  also have "map fst (grouped rs) = first_seen (map sect rs)"
    by (simp add: grouped_def comp_def)
  finally show ?thesis by (simp add: first_seen_filter)
qed

lemma root_of_grouped:
  "(case map_of (grouped rs) ''ROOT'' of None \<Rightarrow> [] | Some ls \<Rightarrow> ls)
     = map line_of (filter (\<lambda>r. sect r = ''ROOT'') rs)"
proof (cases "''ROOT'' \<in> set (map sect rs)")
  case True
  then show ?thesis by (simp add: grouped_def map_of_keyed set_first_seen)
next
  case False
  then have "filter (\<lambda>r. sect r = ''ROOT'') rs = []" by (rule filter_absent_key)
  then show ?thesis using False by (simp add: grouped_def map_of_keyed set_first_seen)
qed

text \<open>
  The claim C7 as the specification states it fails: the sitemap of the example lists
  the sections \<^verbatim>\<open>docs\<close>, \<^verbatim>\<open>blog\<close> and \<^verbatim>\<open>2024\<close> in that order, and the document has
  \<^verbatim>\<open>2024\<close> first, since \<^verbatim>\<open>for\<close>-\<^verbatim>\<open>in\<close> visits the keys that are array indices before
  the others.
\<close>

theorem numeric_section_comes_first:
  "crawl example_env no_options (map fst example_pages) = Some (Inr example_results, [[0, 1, 2, 3, 4]], ())
   \<and> map sect example_results = [''ROOT'', ''docs'', ''docs'', ''blog'', ''2024'']
   \<and> map fst (doc_sections (assemble no_options (organize example_results []))) = [''2024'', ''docs'', ''blog'']"
  by code_simp

text \<open>
  C7, as the code has it. Whatever the results are, \<^verbatim>\<open>ROOT\<close> is not among the
  sections of the document. When no result has a section that a plain object inherits
  from \<^verbatim>\<open>Object.prototype\<close>: the title of the document is the option \<^verbatim>\<open>--title\<close>
  if it is given and not empty, else the title of the first result of section
  \<^verbatim>\<open>ROOT\<close>, else \<^verbatim>\<open>Documentation\<close>, and the description likewise; the sections are
  those of the results other than \<^verbatim>\<open>ROOT\<close>, the ones whose key is an array index first
  and in ascending numeric order, then the others in first-seen order (so all of them in
  first-seen order when no key is an array index); and the lines of a section are the
  pages of that section, one line per page, in the order of the results.
\<close>

theorem index_document_sections:
  "''ROOT'' \<notin> fst ` set (doc_sections (assemble opts (organize results [])))
   \<and> ((\<forall>r\<in>set results. sect r \<notin> set Object_prototype_keys) \<longrightarrow>
        doc_title (assemble opts (organize results [])) =
          (if truthy_string (opt_title opts) then the (opt_title opts)
           else (case filter (\<lambda>r. sect r = ''ROOT'') results of
                   [] \<Rightarrow> ''Documentation'' | r # _ \<Rightarrow> title r))
        \<and> doc_description (assemble opts (organize results [])) =
          (if truthy_string (opt_description opts) then the (opt_description opts)
           else (case filter (\<lambda>r. sect r = ''ROOT'') results of
                   [] \<Rightarrow> ''Generated documentation'' | r # _ \<Rightarrow> show_description (description r)))
        \<and> map fst (doc_sections (assemble opts (organize results []))) =
            index_keys_first (first_seen (filter (\<lambda>k. k \<noteq> ''ROOT'') (map sect results)))
        \<and> ((\<forall>r\<in>set results. \<not> is_array_index (sect r)) \<longrightarrow>
             map fst (doc_sections (assemble opts (organize results []))) =
               first_seen (filter (\<lambda>k. k \<noteq> ''ROOT'') (map sect results)))
        \<and> (\<forall>(k, ls)\<in>set (doc_sections (assemble opts (organize results []))).
              ls = map line_of (filter (\<lambda>r. sect r = k) results)))"
proof (intro conjI impI)
  show "''ROOT'' \<notin> fst ` set (doc_sections (assemble opts (organize results [])))"
    by (auto simp: assemble_def Let_def set_for_in)
next
  assume h: "\<forall>r\<in>set results. sect r \<notin> set Object_prototype_keys"
  note org = organize_all[OF h]
  let ?root = "filter (\<lambda>r. sect r = ''ROOT'') results"
  have root: "(case map_of (grouped results) ''ROOT'' of None \<Rightarrow> [] | Some ls \<Rightarrow> ls) = map line_of ?root"
    by (rule root_of_grouped)
  show "doc_title (assemble opts (organize results [])) =
          (if truthy_string (opt_title opts) then the (opt_title opts)
           else (case ?root of [] \<Rightarrow> ''Documentation'' | r # _ \<Rightarrow> title r))"
    unfolding org assemble_def Let_def root
    by (cases ?root) (simp_all add: line_of_def)
  show "doc_description (assemble opts (organize results [])) =
          (if truthy_string (opt_description opts) then the (opt_description opts)
           else (case ?root of
                   [] \<Rightarrow> ''Generated documentation'' | r # _ \<Rightarrow> show_description (description r)))"
    unfolding org assemble_def Let_def root
    by (cases ?root) (simp_all add: line_of_def)
  show keys: "map fst (doc_sections (assemble opts (organize results []))) =
      index_keys_first (first_seen (filter (\<lambda>k. k \<noteq> ''ROOT'') (map sect results)))"
    unfolding org by (simp add: assemble_def Let_def keys_for_in keys_without_root)
  show "\<forall>(k, ls)\<in>set (doc_sections (assemble opts (organize results []))).
      ls = map line_of (filter (\<lambda>r. sect r = k) results)"
    unfolding org by (auto simp: assemble_def Let_def set_for_in grouped_def)
  assume "\<forall>r\<in>set results. \<not> is_array_index (sect r)"
  then have "\<forall>k\<in>set (first_seen (filter (\<lambda>k. k \<noteq> ''ROOT'') (map sect results))). \<not> is_array_index k"
    by (auto simp: set_first_seen)
  from index_keys_first_none[OF this] keys
  show "map fst (doc_sections (assemble opts (organize results []))) =
      first_seen (filter (\<lambda>k. k \<noteq> ''ROOT'') (map sect results))"
    by simp
qed

theorem index_document_sections_witness:
  "list_all (\<lambda>r. sect r \<notin> set Object_prototype_keys) example_results
   \<and> list_all (\<lambda>r. \<not> is_array_index (sect r)) (take 4 example_results)
   \<and> assemble no_options (organize (take 4 example_results) []) =
       \<lparr>doc_title = ''Home'', doc_description = ''undefined'',
        doc_sections =
          [(''docs'', [\<lparr>line_title = ''A | Docs'', line_url = ''https://x.test/docs/a'', line_description = Undefined\<rparr>,
                       \<lparr>line_title = ''B'', line_url = ''https://x.test/docs/b'', line_description = Undefined\<rparr>]),
           (''blog'', [\<lparr>line_title = ''C'', line_url = ''https://x.test/blog/c'', line_description = Undefined\<rparr>])]\<rparr>
   \<and> doc_title (assemble (no_options\<lparr>opt_title := Some ''Site''\<rparr>) (organize example_results [])) = ''Site''
   \<and> first_seen (filter (\<lambda>k. k \<noteq> ''ROOT'') (map sect (take 4 example_results))) = [''docs'', ''blog'']"
proof -
  note index_document_sections[of no_options "take 4 example_results"]
  moreover have "list_all (\<lambda>r. sect r \<notin> set Object_prototype_keys) example_results
   \<and> list_all (\<lambda>r. \<not> is_array_index (sect r)) (take 4 example_results)
   \<and> assemble no_options (organize (take 4 example_results) []) =
       \<lparr>doc_title = ''Home'', doc_description = ''undefined'',
        doc_sections =
          [(''docs'', [\<lparr>line_title = ''A | Docs'', line_url = ''https://x.test/docs/a'', line_description = Undefined\<rparr>,
                       \<lparr>line_title = ''B'', line_url = ''https://x.test/docs/b'', line_description = Undefined\<rparr>]),
           (''blog'', [\<lparr>line_title = ''C'', line_url = ''https://x.test/blog/c'', line_description = Undefined\<rparr>])]\<rparr>
   \<and> doc_title (assemble (no_options\<lparr>opt_title := Some ''Site''\<rparr>) (organize example_results [])) = ''Site''
   \<and> first_seen (filter (\<lambda>k. k \<noteq> ''ROOT'') (map sect (take 4 example_results))) = [''docs'', ''blog'']"
    by code_simp
  ultimately show ?thesis by fast
qed


end
